theory Spec2Isabelle
  imports Complex_Main
begin

section \<open>Data model of \<open>linalg_viz/scene/scene.py\<close>\<close>

text \<open>
  Python objects have identity and are shared between lists, so entities (class
  \<open>Vector\<close>) and animations are references into a store. Membership tests
  (\<open>obj in self._objects\<close>, \<open>anim not in self._animations\<close>) compare references.
  A Python float is an IEEE 754 double: every arithmetic operation on floats is the
  exact operation followed by rounding to the nearest double (\<open>fl\<close>, below).
\<close>

type_synonym ref = nat

datatype error = ValueError | ZeroDivisionError | ExportError | ConfigurationError

section \<open>Floating point\<close>

text \<open>
  Rounding a real to the nearest double, ties to even: 53 significant bits, the unit in
  the last place never below \<open>2 powi (- 1074)\<close> (subnormal numbers). Doubles are the
  reals that \<open>fl\<close> leaves fixed. Overflow to infinity and NaN are outside the model:
  all values here stay far below \<open>2 powi 1024\<close>. An \<open>int\<close> that meets a float is
  converted first; that is exact for the integers below \<open>2 ^ 53\<close> that occur here
  (frame rates, pixel coordinates). The quotient of two ints, \<open>1000 / fps\<close>, is the
  exact quotient rounded once.
\<close>

definition round_half_even :: "real \<Rightarrow> int" where
  "round_half_even y =
     (let f = \<lfloor>y\<rfloor>
      in if y - of_int f < 1 / 2 then f
         else if 1 / 2 < y - of_int f then f + 1
         else if even f then f else f + 1)"

definition ulp_exponent :: "real \<Rightarrow> int" where
  "ulp_exponent x = max (\<lfloor>log 2 \<bar>x\<bar>\<rfloor> - 52) (- 1074)"

definition fl :: "real \<Rightarrow> real" where
  "fl x =
     (if x = 0 then 0
      else of_int (round_half_even (x / 2 powi ulp_exponent x)) * 2 powi ulp_exponent x)"

section \<open>Timeline and animations\<close>

datatype mode = Stopped | Playing | Paused

text \<open>
  Modelled from the spec: class \<open>Timeline\<close> (\<open>linalg_viz/animation/timeline.py\<close>) is
  not among the sources. Section 4.1: \<open>play()\<close> (stopped/paused to playing; no-op if
  already playing), \<open>stop()\<close> (any state to stopped, elapsed reset to 0), \<open>update(dt)\<close>
  (advances elapsed by dt iff playing; no-op otherwise). The elapsed time is a float,
  and advancing it is a float sum.
\<close>

record timeline =
  current_time :: real
  mode :: mode

definition Timeline :: timeline where
  "Timeline = \<lparr>current_time = 0, mode = Stopped\<rparr>"

definition Timeline_play :: "timeline \<Rightarrow> timeline" where
  "Timeline_play t = t\<lparr>mode := Playing\<rparr>"

definition Timeline_stop :: "timeline \<Rightarrow> timeline" where
  "Timeline_stop t = t\<lparr>mode := Stopped, current_time := 0\<rparr>"

definition Timeline_update :: "real \<Rightarrow> timeline \<Rightarrow> timeline" where
  "Timeline_update dt t =
     (if mode t = Playing then t\<lparr>current_time := fl (current_time t + dt)\<rparr> else t)"

text \<open>
  Modelled from the spec: classes \<open>Animation\<close>, \<open>VectorAnimation\<close> and
  \<open>GridTransformAnimation\<close> (\<open>linalg_viz/animation/animator.py\<close>) are not among the
  sources. Section 4.2: \<open>update(dt)\<close> adds dt to progress, clamped at duration (never
  clamped below 0); \<open>reset()\<close> returns any state to idle (progress 0); \<open>isFinished\<close>
  is the pure predicate elapsed \<ge> duration. A \<open>VectorAnimation\<close> carries the entity it
  targets in its field \<open>_end\<close>. Progress and duration are floats, and adding dt is a
  float sum.
\<close>

datatype anim_kind = VectorAnimation ref | GridTransformAnimation | BaseAnimation

record animation =
  kind :: anim_kind
  duration :: real
  elapsed :: real

definition animation_update :: "real \<Rightarrow> animation \<Rightarrow> animation" where
  "animation_update dt a = a\<lparr>elapsed := min (fl (elapsed a + dt)) (duration a)\<rparr>"

definition animation_reset :: "animation \<Rightarrow> animation" where
  "animation_reset a = a\<lparr>elapsed := 0\<rparr>"

definition is_finished :: "animation \<Rightarrow> bool" where
  "is_finished a = (duration a \<le> elapsed a)"

text \<open>
  The classes \<open>Camera2D\<close>, \<open>Camera3D\<close>, \<open>Grid2D\<close>, \<open>Grid3D\<close>, \<open>Renderer2D\<close> and
  \<open>Renderer3D\<close> are not among the sources. A camera and a renderer are the values that
  keep the arguments of their constructors.
\<close>

datatype camera = Camera2D int int | Camera3D int int
datatype grid = Grid2D | Grid3D
datatype renderer = Renderer2D int int | Renderer3D int int

text \<open>
  Modelled from the spec: the constructors \<open>Camera2D(width, height)\<close>,
  \<open>Camera3D(width, height)\<close>, \<open>Renderer2D(width, height)\<close> and
  \<open>Renderer3D(width, height)\<close> are not among the sources. Section 7: an invalid
  viewport size is a ConfigurationError that fails fast at Scene construction, fatal to
  that construction call only. \<open>Scene.__init__\<close> hands width and height to these
  constructors and checks nothing itself, so it is they that raise. A viewport size is
  taken to be invalid when the width or the height is not positive.
\<close>

definition valid_viewport :: "int \<Rightarrow> int \<Rightarrow> bool" where
  "valid_viewport w h = (0 < w \<and> 0 < h)"

definition construct :: "(int \<Rightarrow> int \<Rightarrow> 'a) \<Rightarrow> int \<Rightarrow> int \<Rightarrow> error + 'a" where
  "construct C w h = (if valid_viewport w h then Inr (C w h) else Inl ConfigurationError)"

text \<open>Calls on the render surface, in the order they are issued in one pass.\<close>

datatype draw_call =
    Clear
  | Setup2DProjection
  | Setup3DProjection
  | DrawGrid
  | DrawTransformedGrid ref
  | DrawAnimatedVector ref
  | DrawVector ref
  | DrawControlsHint bool
  | Flip

text \<open>A captured image: its size and what the last render pass drew.\<close>

record image =
  img_width :: int
  img_height :: int
  pixels :: "draw_call list"

text \<open>Calls on the collaborators of the Scene, in program order.\<close>

datatype event =
    TimelinePlay
  | TimelineStop
  | TimelineUpdate real
  | AnimUpdate ref real
  | AnimReset ref
  | Render draw_call
  | PygameInit
  | SetCaption string
  | GlSetAttribute
  | SetMode int int
  | InitGl
  | EventPump
  | PygameQuit
  | CameraReset
  | CameraResize int int
  | RendererResize int int
  | CameraZoomBy real "(int \<times> int) option"
  | CameraPan int int
  | CameraOrbit real real
  | ImageSave string "image list" int int
  | Print string nat

text \<open>
  The fields of a \<open>Scene\<close> object (without the leading underscore), the identity
  \<open>self\<close> of the object, and the part of the heap it reaches: the animations
  (\<open>anim_store\<close>), every entity's back-reference \<open>_scene\<close> (\<open>ent_scene\<close>), the
  framebuffer, and the trace of collaborator calls made so far.
\<close>

record scene =
  self :: ref
  dim :: int
  width :: int
  height :: int
  title :: string
  objects :: "ref list"
  animations :: "ref list"
  original_animations :: "ref list"
  timeline :: timeline
  recording :: bool
  frames :: "image list"
  camera :: camera
  grid :: grid
  renderer :: renderer
  running :: bool
  paused :: bool
  screen :: "(int \<times> int) option"
  clock :: bool
  show_grid :: bool
  step_size :: real
  dragging :: bool
  last_mouse_pos :: "int \<times> int"
  anim_store :: "ref \<Rightarrow> animation"
  ent_scene :: "ref \<Rightarrow> ref option"
  framebuffer :: "draw_call list"
  trace :: "event list"

section \<open>Construction\<close>

definition Scene_init ::
  "(ref \<Rightarrow> animation) \<Rightarrow> (ref \<Rightarrow> ref option) \<Rightarrow> ref \<Rightarrow> int \<Rightarrow> int \<Rightarrow> int \<Rightarrow> string
     \<Rightarrow> error + scene" where
  "Scene_init store back this d w h t =
     (if d \<noteq> 2 \<and> d \<noteq> 3 then Inl ValueError
      else
        case construct (if d = 2 then Camera2D else Camera3D) w h of
          Inl e \<Rightarrow> Inl e
        | Inr cam \<Rightarrow>
            (case construct (if d = 2 then Renderer2D else Renderer3D) w h of
               Inl e \<Rightarrow> Inl e
             | Inr rend \<Rightarrow>
                 Inr \<lparr>self = this, dim = d, width = w, height = h, title = t,
                   objects = [], animations = [], original_animations = [],
                   timeline = Timeline, recording = False, frames = [],
                   camera = cam,
                   grid = (if d = 2 then Grid2D else Grid3D),
                   renderer = rend,
                   running = False, paused = False, screen = None, clock = False,
                   show_grid = True, step_size = fl (5 / 100),
                   dragging = False, last_mouse_pos = (0, 0),
                   anim_store = store, ent_scene = back, framebuffer = [], trace = []\<rparr>))"

section \<open>Entities\<close>

fun add :: "ref list \<Rightarrow> scene \<Rightarrow> scene" where
  "add [] s = s"
| "add (obj # objs) s =
     add objs (if obj \<notin> set (objects s)
               then s\<lparr>objects := objects s @ [obj],
                      ent_scene := (ent_scene s)(obj := Some (self s))\<rparr>
               else s)"

definition remove :: "ref \<Rightarrow> scene \<Rightarrow> scene" where
  "remove obj s =
     (if obj \<in> set (objects s)
      then s\<lparr>objects := remove1 obj (objects s),
             ent_scene := (ent_scene s)(obj := None)\<rparr>
      else s)"

fun detach_all :: "ref list \<Rightarrow> scene \<Rightarrow> scene" where
  "detach_all [] s = s"
| "detach_all (obj # objs) s = detach_all objs (s\<lparr>ent_scene := (ent_scene s)(obj := None)\<rparr>)"

definition clear :: "scene \<Rightarrow> scene" where
  "clear s = (detach_all (objects s) s)\<lparr>objects := [], animations := []\<rparr>"

definition add_animation :: "ref \<Rightarrow> scene \<Rightarrow> scene" where
  "add_animation a s =
     s\<lparr>animations := animations s @ [a], original_animations := original_animations s @ [a]\<rparr>"

section \<open>Calls on the Timeline and on the animations\<close>

definition tl_play :: "scene \<Rightarrow> scene" where
  "tl_play s = s\<lparr>timeline := Timeline_play (timeline s), trace := trace s @ [TimelinePlay]\<rparr>"

definition tl_stop :: "scene \<Rightarrow> scene" where
  "tl_stop s = s\<lparr>timeline := Timeline_stop (timeline s), trace := trace s @ [TimelineStop]\<rparr>"

definition tl_update :: "real \<Rightarrow> scene \<Rightarrow> scene" where
  "tl_update dt s =
     s\<lparr>timeline := Timeline_update dt (timeline s), trace := trace s @ [TimelineUpdate dt]\<rparr>"

definition anim_reset :: "ref \<Rightarrow> scene \<Rightarrow> scene" where
  "anim_reset a s =
     s\<lparr>anim_store := (anim_store s)(a := animation_reset (anim_store s a)),
       trace := trace s @ [AnimReset a]\<rparr>"

definition anim_update :: "ref \<Rightarrow> real \<Rightarrow> scene \<Rightarrow> scene" where
  "anim_update a dt s =
     s\<lparr>anim_store := (anim_store s)(a := animation_update dt (anim_store s a)),
       trace := trace s @ [AnimUpdate a dt]\<rparr>"

section \<open>Replay and stepping\<close>

text \<open>\<open>for anim in self._animations: anim.reset()\<close>\<close>

fun reset_each :: "ref list \<Rightarrow> scene \<Rightarrow> scene" where
  "reset_each [] s = s"
| "reset_each (a # as) s = reset_each as (anim_reset a s)"

text \<open>
  \<open>for anim in self._original_animations: if anim not in self._animations: ...\<close>;
  the membership test reads the active list as it is at that iteration.
\<close>

fun restore_each :: "ref list \<Rightarrow> scene \<Rightarrow> scene" where
  "restore_each [] s = s"
| "restore_each (a # as) s =
     restore_each as
       (if a \<notin> set (animations s)
        then (anim_reset a s)\<lparr>animations := animations s @ [a]\<rparr>
        else s)"

definition replay :: "scene \<Rightarrow> scene" where
  "replay s =
     (let s1 = reset_each (animations s) s;
          s2 = restore_each (original_animations s1) s1;
          s3 = tl_stop s2;
          s4 = tl_play s3
      in s4\<lparr>paused := False\<rparr>)"

text \<open>\<open>for anim in self._animations: anim.update(dt)\<close>\<close>

fun update_each :: "ref list \<Rightarrow> real \<Rightarrow> scene \<Rightarrow> scene" where
  "update_each [] dt s = s"
| "update_each (a # as) dt s = update_each as dt (anim_update a dt s)"

definition step :: "real \<Rightarrow> scene \<Rightarrow> scene" where
  "step dt s = (let s1 = tl_update dt s in update_each (animations s1) dt s1)"

definition get_total_progress :: "scene \<Rightarrow> real" where
  "get_total_progress s =
     (case animations s of
        a # _ \<Rightarrow> elapsed (anim_store s a)
      | [] \<Rightarrow> current_time (timeline s))"

definition step_backward :: "scene \<Rightarrow> scene" where
  "step_backward s =
     (let current_progress = get_total_progress s;
          target_progress = max 0 (fl (current_progress - step_size s));
          s1 = reset_each (animations s) s;
          s2 = restore_each (original_animations s1) s1;
          s3 = tl_stop s2;
          s4 = (if 0 < target_progress then step target_progress s3 else s3)
      in s4\<lparr>paused := True\<rparr>)"

section \<open>The interactive update\<close>

text \<open>
  The first loop of \<open>_update\<close>: every active animation is updated and, when it
  reports finished right after, appended to the local list \<open>finished\<close>.
\<close>

fun update_collect :: "ref list \<Rightarrow> real \<Rightarrow> ref list \<Rightarrow> scene \<Rightarrow> ref list \<times> scene" where
  "update_collect [] dt finished s = (finished, s)"
| "update_collect (a # as) dt finished s =
     (let s1 = anim_update a dt s
      in update_collect as dt
           (if is_finished (anim_store s1 a) then finished @ [a] else finished) s1)"

text \<open>
  \<open>for anim in finished: self._animations.remove(anim)\<close>. \<open>list.remove\<close> deletes the
  first occurrence and raises \<open>ValueError\<close> when there is none. Every element of
  \<open>finished\<close> was taken from the active list, one entry per occurrence, so the error
  cannot arise here (lemma \<open>update_removal_never_raises\<close>, about the loop with the
  check written out, \<open>remove_each_checked\<close>), and the loop is modelled without it.
\<close>

fun remove_each :: "ref list \<Rightarrow> scene \<Rightarrow> scene" where
  "remove_each [] s = s"
| "remove_each (a # as) s = remove_each as (s\<lparr>animations := remove1 a (animations s)\<rparr>)"

fun remove_each_checked :: "ref list \<Rightarrow> ref list \<Rightarrow> error + ref list" where
  "remove_each_checked [] xs = Inr xs"
| "remove_each_checked (a # as) xs =
     (if a \<in> set xs then remove_each_checked as (remove1 a xs) else Inl ValueError)"

definition update :: "real \<Rightarrow> scene \<Rightarrow> scene" where
  "update dt s =
     (if paused s then s
      else let s1 = tl_update dt s
           in case update_collect (animations s1) dt [] s1 of
                (finished, s2) \<Rightarrow> remove_each finished s2)"

section \<open>Render dispatch\<close>

text \<open>
  The inner loop of the render pass: the first active \<open>VectorAnimation\<close> whose
  \<open>_end\<close> is the entity; the search stops there (\<open>break\<close>).
\<close>

fun find_active :: "(ref \<Rightarrow> animation) \<Rightarrow> ref \<Rightarrow> ref list \<Rightarrow> ref option" where
  "find_active store obj [] = None"
| "find_active store obj (a # as) =
     (if kind (store a) = VectorAnimation obj then Some a else find_active store obj as)"

definition draw_object :: "scene \<Rightarrow> ref \<Rightarrow> draw_call" where
  "draw_object s obj =
     (case find_active (anim_store s) obj (animations s) of
        Some a \<Rightarrow>
          if \<not> is_finished (anim_store s a) then DrawAnimatedVector a else DrawVector obj
      | None \<Rightarrow> DrawVector obj)"

definition is_grid_anim :: "scene \<Rightarrow> ref \<Rightarrow> bool" where
  "is_grid_anim s a = (kind (anim_store s a) = GridTransformAnimation)"

definition render_calls :: "draw_call \<Rightarrow> scene \<Rightarrow> draw_call list" where
  "render_calls setup s =
     [Clear, setup]
     @ (if show_grid s then [DrawGrid] else [])
     @ map DrawTransformedGrid (filter (is_grid_anim s) (animations s))
     @ map (draw_object s) (objects s)
     @ [DrawControlsHint (paused s), Flip]"

definition issue :: "draw_call list \<Rightarrow> scene \<Rightarrow> scene" where
  "issue calls s = s\<lparr>framebuffer := calls, trace := trace s @ map Render calls\<rparr>"

definition render_2d :: "scene \<Rightarrow> scene" where
  "render_2d s = issue (render_calls Setup2DProjection s) s"

definition render_3d :: "scene \<Rightarrow> scene" where
  "render_3d s = issue (render_calls Setup3DProjection s) s"

definition render :: "scene \<Rightarrow> scene" where
  "render s = (if dim s = 2 then render_2d s else render_3d s)"

section \<open>Input events of the interactive session\<close>

datatype key = K_ESCAPE | K_r | K_SPACE | K_RIGHT | K_LEFT | K_c | K_other

text \<open>
  \<open>MOUSEMOTION\<close> carries, besides the position, whether a shift key is held
  (\<open>pygame.key.get_mods() & KMOD_SHIFT\<close>).
\<close>

datatype pg_event =
    QUIT
  | KEYDOWN key
  | VIDEORESIZE int int
  | MOUSEBUTTONDOWN int "int \<times> int"
  | MOUSEBUTTONUP int
  | MOUSEMOTION "int \<times> int" bool
  | OTHER

definition call :: "event \<Rightarrow> scene \<Rightarrow> scene" where
  "call e s = s\<lparr>trace := trace s @ [e]\<rparr>"

fun handle_event :: "pg_event \<Rightarrow> scene \<Rightarrow> scene" where
  "handle_event QUIT s = s\<lparr>running := False\<rparr>"
| "handle_event (KEYDOWN K_ESCAPE) s = s\<lparr>running := False\<rparr>"
| "handle_event (KEYDOWN K_r) s = replay s"
| "handle_event (KEYDOWN K_SPACE) s = s\<lparr>paused := \<not> paused s\<rparr>"
| "handle_event (KEYDOWN K_RIGHT) s = step (step_size s) (s\<lparr>paused := True\<rparr>)"
| "handle_event (KEYDOWN K_LEFT) s = step_backward s"
| "handle_event (KEYDOWN K_c) s = call CameraReset s"
| "handle_event (KEYDOWN K_other) s = s"
| "handle_event (VIDEORESIZE w h) s =
     call (RendererResize w h) (call (CameraResize w h) (call (SetMode w h)
       (s\<lparr>width := w, height := h, screen := Some (w, h)\<rparr>)))"
| "handle_event (MOUSEBUTTONDOWN b pos) s =
     (if b = 1 then s\<lparr>dragging := True, last_mouse_pos := pos\<rparr>
      else if b = 4 then
        (if dim s = 2 then call (CameraZoomBy (fl (11 / 10)) (Some pos)) s
         else call (CameraZoomBy (fl (9 / 10)) None) s)
      else if b = 5 then
        (if dim s = 2 then call (CameraZoomBy (fl (9 / 10)) (Some pos)) s
         else call (CameraZoomBy (fl (11 / 10)) None) s)
      else s)"
| "handle_event (MOUSEBUTTONUP b) s = (if b = 1 then s\<lparr>dragging := False\<rparr> else s)"
| "handle_event (MOUSEMOTION pos shift) s =
     (if dragging s then
        (let dx = fst pos - fst (last_mouse_pos s);
             dy = snd pos - snd (last_mouse_pos s);
             s1 = (if dim s = 2 then call (CameraPan dx dy) s
                   else if shift then call (CameraPan dx dy) s
                   else call (CameraOrbit (fl (of_int dx * fl (1 / 100)))
                                      (fl (of_int (- dy) * fl (1 / 100)))) s)
         in s1\<lparr>last_mouse_pos := pos\<rparr>)
      else s)"
| "handle_event OTHER s = s"

fun handle_events :: "pg_event list \<Rightarrow> scene \<Rightarrow> scene" where
  "handle_events [] s = s"
| "handle_events (e # es) s = handle_events es (handle_event e s)"

text \<open>
  The body of the loop of \<open>show\<close>, for the delta \<open>dt\<close> the clock returned and the
  events pygame delivered in this iteration.
\<close>

definition show_frame :: "real \<Rightarrow> pg_event list \<Rightarrow> scene \<Rightarrow> scene" where
  "show_frame dt evs s = render (update dt (handle_events evs s))"

section \<open>Capture and export\<close>

definition init_pygame :: "scene \<Rightarrow> scene" where
  "init_pygame s =
     s\<lparr>screen := Some (width s, height s), clock := True,
       trace := trace s @ [PygameInit, SetCaption (title s), GlSetAttribute, GlSetAttribute,
                           SetMode (width s) (height s), InitGl]\<rparr>"

definition capture_frame :: "scene \<Rightarrow> scene" where
  "capture_frame s =
     (if \<not> recording s then s
      else s\<lparr>frames := frames s
               @ [\<lparr>img_width = width s, img_height = height s, pixels = framebuffer s\<rparr>]\<rparr>)"

text \<open>Python's \<open>int(x)\<close> on a float: truncation toward zero.\<close>

definition py_int :: "real \<Rightarrow> int" where
  "py_int x = (if 0 \<le> x then \<lfloor>x\<rfloor> else \<lceil>x\<rceil>)"

text \<open>
  \<open>_save_gif\<close>: the write is the call \<open>frames[0].save(filename, save_all=True,
  append_images=frames[1:], duration=duration, loop=0)\<close>, traced as
  \<open>ImageSave filename frames duration loop\<close>, followed by the printed report.
  \<open>Image.save\<close> is Pillow's. It is taken to succeed, except on a negative duration
  (a negative fps), which its GIF writer cannot encode: then the call raises, and
  nothing is printed.
\<close>

definition save_gif :: "string \<Rightarrow> int \<Rightarrow> scene \<Rightarrow> error + scene" where
  "save_gif filename fps s =
     (if frames s = [] then Inr s
      else if fps = 0 then Inl ZeroDivisionError
      else let duration = py_int (fl (1000 / of_int fps))
           in if duration < 0 then Inl ExportError
              else Inr (s\<lparr>trace := trace s
                          @ [ImageSave filename (frames s) duration 0,
                             Print filename (length (frames s))]\<rparr>))"

text \<open>The body of the capture loops, and the trailing loop that only renders.\<close>

definition capture_step :: "real \<Rightarrow> scene \<Rightarrow> scene" where
  "capture_step dt s = capture_frame (render (update dt (call EventPump s)))"

definition still_step :: "scene \<Rightarrow> scene" where
  "still_step s = capture_frame (render (call EventPump s))"

text \<open>\<open>frame_time = 1.0 / fps\<close>\<close>

definition frame_time :: "int \<Rightarrow> real" where
  "frame_time fps = fl (1 / of_int fps)"

definition finish_recording :: "string \<Rightarrow> int \<Rightarrow> scene \<Rightarrow> error + scene" where
  "finish_recording filename fps s =
     (case save_gif filename fps s of
        Inl e \<Rightarrow> Inl e
      | Inr s1 \<Rightarrow> Inr ((call PygameQuit s1)\<lparr>recording := False\<rparr>))"

definition start_recording :: "scene \<Rightarrow> scene" where
  "start_recording s = tl_play (init_pygame (s\<lparr>recording := True, frames := []\<rparr>))"

text \<open>\<open>Scene.record\<close>\<close>

definition scene_record :: "string \<Rightarrow> real \<Rightarrow> int \<Rightarrow> scene \<Rightarrow> error + scene" where
  "scene_record filename dur fps s =
     (let s1 = start_recording s
      in if fps = 0 then Inl ZeroDivisionError
         else let total_frames = py_int (fl (dur * of_int fps))
              in finish_recording filename fps
                   ((capture_step (frame_time fps) ^^ nat total_frames) s1))"

text \<open>
  The \<open>while\<close> loop of \<open>record_play\<close>, with its local counter \<open>frame_count\<close>;
  the counter is returned with the state. \<open>dt\<close> is the loop's \<open>frame_time\<close>.
\<close>

function record_play_loop :: "real \<Rightarrow> nat \<Rightarrow> scene \<Rightarrow> nat \<times> scene" where
  "record_play_loop dt frame_count s =
     (if animations s \<noteq> [] \<and> frame_count < 300
      then record_play_loop dt (Suc frame_count) (capture_step dt s)
      else (frame_count, s))"
  by pat_completeness auto
termination
  by (relation "measure (\<lambda>(dt, frame_count, s). 300 - frame_count)") auto

declare record_play_loop.simps [simp del]

definition record_play :: "string \<Rightarrow> int \<Rightarrow> scene \<Rightarrow> error + scene" where
  "record_play filename fps s =
     (let s1 = start_recording s
      in if fps = 0 then Inl ZeroDivisionError
         else let s2 = snd (record_play_loop (frame_time fps) 0 s1)
              in finish_recording filename fps ((still_step ^^ nat fps) s2))"

section \<open>Concrete scenes\<close>

text \<open>A Scene as the constructor returns it, in a heap of idle animations.\<close>

definition fresh_scene :: "int \<Rightarrow> scene" where
  "fresh_scene d =
     projr (Scene_init (\<lambda>_. \<lparr>kind = BaseAnimation, duration = 1, elapsed = 0\<rparr>) (\<lambda>_. None)
              0 d 800 600 ''linalg-viz'')"

definition idle :: "anim_kind \<Rightarrow> real \<Rightarrow> animation" where
  "idle k d = \<lparr>kind = k, duration = d, elapsed = 0\<rparr>"

text \<open>
  Two vector animations on the entities 7 and 8 (durations 0.05 and 2), a grid
  animation, and a second vector animation on entity 7.
\<close>

definition demo_store :: "ref \<Rightarrow> animation" where
  "demo_store =
     (\<lambda>_. idle BaseAnimation 1)
       (0 := idle (VectorAnimation 7) (fl (1 / 20)), 1 := idle (VectorAnimation 8) 2,
        2 := idle GridTransformAnimation 1, 3 := idle (VectorAnimation 7) 2)"

definition demo_scene :: scene where
  "demo_scene =
     add_animation 1 (add_animation 0 (add [7, 8]
       (projr (Scene_init demo_store (\<lambda>_. None) 0 2 800 600 ''linalg-viz''))))"

section \<open>Auxiliary functions for stating the effect of the loops\<close>

fun update_store :: "real \<Rightarrow> ref list \<Rightarrow> (ref \<Rightarrow> animation) \<Rightarrow> ref \<Rightarrow> animation" where
  "update_store dt [] st = st"
| "update_store dt (a # as) st = update_store dt as (st(a := animation_update dt (st a)))"

fun reset_store :: "ref list \<Rightarrow> (ref \<Rightarrow> animation) \<Rightarrow> ref \<Rightarrow> animation" where
  "reset_store [] st = st"
| "reset_store (a # as) st = reset_store as (st(a := animation_reset (st a)))"

text \<open>The originals that the restoring loop appends, given the active list.\<close>

fun missing :: "ref list \<Rightarrow> ref list \<Rightarrow> ref list" where
  "missing active [] = []"
| "missing active (a # as) =
     (if a \<notin> set active then a # missing (active @ [a]) as else missing active as)"

section \<open>Predicates for stating the render dispatch\<close>

definition is_vector_call :: "draw_call \<Rightarrow> bool" where
  "is_vector_call c = (case c of DrawVector _ \<Rightarrow> True | DrawAnimatedVector _ \<Rightarrow> True | _ \<Rightarrow> False)"

definition is_transformed_grid_call :: "draw_call \<Rightarrow> bool" where
  "is_transformed_grid_call c = (case c of DrawTransformedGrid _ \<Rightarrow> True | _ \<Rightarrow> False)"

text \<open>
  The claim's condition: some active, unfinished \<open>VectorAnimation\<close> targets the entity.
\<close>

definition targets :: "scene \<Rightarrow> ref \<Rightarrow> ref \<Rightarrow> bool" where
  "targets s obj a = (kind (anim_store s a) = VectorAnimation obj)"

definition targeted_unfinished :: "scene \<Rightarrow> ref \<Rightarrow> bool" where
  "targeted_unfinished s obj =
     (\<exists>a \<in> set (animations s). targets s obj a \<and> \<not> is_finished (anim_store s a))"

definition setup_call :: "scene \<Rightarrow> draw_call" where
  "setup_call s = (if dim s = 2 then Setup2DProjection else Setup3DProjection)"

text \<open>
  The demo scene with a second animation on entity 7, after one press of the right
  arrow key (pause and a single step of 0.05).
\<close>

definition stepped_scene :: scene where
  "stepped_scene = handle_event (KEYDOWN K_RIGHT) (add_animation 3 demo_scene)"

text \<open>The image that a capture takes when the Scene is rendered as it stands.\<close>

definition still_image :: "scene \<Rightarrow> image" where
  "still_image s =
     \<lparr>img_width = width s, img_height = height s, pixels = render_calls (setup_call s) s\<rparr>"

text \<open>No entity belongs to a Scene.\<close>

definition detached :: "ref \<Rightarrow> ref option" where
  "detached = (\<lambda>_. None)"

text \<open>A fresh Scene that is recording and has captured one frame.\<close>

definition captured_scene :: scene where
  "captured_scene = capture_frame (render ((fresh_scene 2)\<lparr>recording := True\<rparr>))"

text \<open>A Scene with one idle animation (duration 2) on its entity.\<close>

definition idle_scene :: scene where
  "idle_scene =
     add_animation 1 (add [8]
       (projr (Scene_init demo_store detached 0 2 800 600 ''linalg-viz'')))"

text \<open>The same Scene after it has played for half a second.\<close>

definition playing_scene :: scene where
  "playing_scene = update (1 / 2) (tl_play idle_scene)"

section \<open>Rounding to the nearest double\<close>

lemma powr_powi: "(2::real) powr of_int k = 2 powi k"
  by (simp add: powr_real_of_int')

lemma binade:
  assumes "2 powi k \<le> \<bar>x\<bar>" "\<bar>x\<bar> < 2 powi (k + 1)"
  shows "\<lfloor>log 2 \<bar>x\<bar>\<rfloor> = k"
proof (rule floor_unique)
  have pos: "0 < \<bar>x\<bar>" using assms(1) by (smt (verit) power_int_eq_0_iff zero_less_power_int)
  show "of_int k \<le> log 2 \<bar>x\<bar>"
    using assms(1) pos by (simp add: le_log_iff powr_powi)
  have "\<bar>x\<bar> < 2 powr (of_int (k + 1))" using assms(2) by (simp only: powr_powi)
  then show "log 2 \<bar>x\<bar> < of_int k + 1"
    using pos by (simp add: log_less_iff)
qed

lemma binade_bounds:
  assumes "x \<noteq> 0"
  shows "2 powi \<lfloor>log 2 \<bar>x\<bar>\<rfloor> \<le> \<bar>x\<bar>" "\<bar>x\<bar> < 2 powi (\<lfloor>log 2 \<bar>x\<bar>\<rfloor> + 1)"
proof -
  have pos: "0 < \<bar>x\<bar>" using assms by simp
  have "2 powr of_int \<lfloor>log 2 \<bar>x\<bar>\<rfloor> \<le> \<bar>x\<bar>"
    using pos le_log_iff [of 2 "\<bar>x\<bar>" "of_int \<lfloor>log 2 \<bar>x\<bar>\<rfloor>"] of_int_floor_le [of "log 2 \<bar>x\<bar>"]
    by linarith
  then show "2 powi \<lfloor>log 2 \<bar>x\<bar>\<rfloor> \<le> \<bar>x\<bar>" by (simp only: powr_powi)
  have "log 2 \<bar>x\<bar> < of_int (\<lfloor>log 2 \<bar>x\<bar>\<rfloor> + 1)" by simp
  then have "\<bar>x\<bar> < 2 powr of_int (\<lfloor>log 2 \<bar>x\<bar>\<rfloor> + 1)"
    using pos log_less_iff [of 2 "\<bar>x\<bar>" "of_int (\<lfloor>log 2 \<bar>x\<bar>\<rfloor> + 1)"] by linarith
  then show "\<bar>x\<bar> < 2 powi (\<lfloor>log 2 \<bar>x\<bar>\<rfloor> + 1)" by (simp only: powr_powi)
qed

lemma round_half_even_of_int [simp]: "round_half_even (of_int n) = n"
  by (simp add: round_half_even_def)

lemma round_half_even_error: "\<bar>of_int (round_half_even y) - y\<bar> \<le> 1 / 2"
  by (auto simp: round_half_even_def Let_def)

lemma round_half_even_nonneg: "0 \<le> y \<Longrightarrow> 0 \<le> round_half_even y"
  by (auto simp: round_half_even_def Let_def)

lemma round_half_even_nonpos: "y \<le> 0 \<Longrightarrow> round_half_even y \<le> 0"
proof -
  assume y: "y \<le> 0"
  show ?thesis
  proof (cases "y = 0")
    case True
    then show ?thesis using round_half_even_of_int [of 0] by simp
  next
    case False
    with y have "\<lfloor>y\<rfloor> \<le> - 1" by (simp add: floor_le_iff)
    then show ?thesis by (auto simp: round_half_even_def Let_def)
  qed
qed

lemma fl_0 [simp]: "fl 0 = 0"
  by (simp add: fl_def)

lemma fl_nonneg: "0 \<le> x \<Longrightarrow> 0 \<le> fl x"
  by (auto simp: fl_def intro!: mult_nonneg_nonneg round_half_even_nonneg)

lemma fl_nonpos: "x \<le> 0 \<Longrightarrow> fl x \<le> 0"
proof -
  assume "x \<le> 0"
  then have "x / 2 powi ulp_exponent x \<le> 0" by (simp add: divide_nonpos_pos)
  then have "real_of_int (round_half_even (x / 2 powi ulp_exponent x)) \<le> 0"
    using round_half_even_nonpos by simp
  then show ?thesis by (simp add: fl_def mult_nonpos_nonneg)
qed

lemma fl_eval:
  assumes "2 powi k \<le> \<bar>x\<bar>" "\<bar>x\<bar> < 2 powi (k + 1)" "e = max (k - 52) (- 1074)"
  shows "fl x = of_int (round_half_even (x / 2 powi e)) * 2 powi e"
proof -
  have "x \<noteq> 0" using assms(1) by (smt (verit) power_int_eq_0_iff zero_less_power_int abs_zero)
  moreover have "ulp_exponent x = e" using binade [OF assms(1,2)] assms(3) by (simp add: ulp_exponent_def)
  ultimately show ?thesis by (simp add: fl_def)
qed


lemma fl_one_twentieth: "fl (1 / 20) = 3602879701896397 / 72057594037927936"
proof -
  have "fl (1 / 20)
      = of_int (round_half_even ((1 / 20) / 2 powi (- 57))) * 2 powi (- 57)"
    by (rule fl_eval [where k = "- 5"]) simp_all
  also have "round_half_even ((1 / 20) / 2 powi (- 57)) = 7205759403792794"
    by (simp add: round_half_even_def Let_def)
  finally show ?thesis by simp
qed

lemma ulp_exponent_le:
  assumes "x \<noteq> 0"
  shows "\<bar>x\<bar> < 2 powi (ulp_exponent x + 53)"
proof -
  have "\<bar>x\<bar> < 2 powi (\<lfloor>log 2 \<bar>x\<bar>\<rfloor> + 1)" using binade_bounds(2) [OF assms] .
  also have "\<dots> \<le> 2 powi (ulp_exponent x + 53)"
    by (rule power_int_increasing) (simp_all add: ulp_exponent_def)
  finally show ?thesis .
qed

lemma fl_dyadic:
  assumes "\<bar>m\<bar> \<le> 2 ^ 53" "- 1074 \<le> j"
  shows "fl (of_int m * 2 powi j) = of_int m * 2 powi j"
proof (cases "m = 0")
  case True
  then show ?thesis by simp
next
  case False
  let ?x = "real_of_int m * 2 powi j"
  let ?e = "ulp_exponent ?x"
  have x0: "?x \<noteq> 0" using False by simp
  have ax: "\<bar>?x\<bar> = of_int \<bar>m\<bar> * 2 powi j" by (simp add: abs_mult)
  text \<open>The unit in the last place is at most \<open>2 powi (j + 1)\<close>, and at most
    \<open>2 powi j\<close> unless the significand is \<open>2 ^ 53\<close>.\<close>
  have e_le: "?e \<le> j \<or> (?e = j + 1 \<and> \<bar>m\<bar> = 2 ^ 53)"
  proof (cases "\<bar>m\<bar> = 2 ^ 53")
    case True
    have "\<bar>?x\<bar> = 2 powi (j + 53)"
      by (simp add: ax True power_int_add)
    then have "\<lfloor>log 2 \<bar>?x\<bar>\<rfloor> = j + 53"
      by (intro binade) (simp_all add: power_int_add)
    with assms(2) True show ?thesis by (simp add: ulp_exponent_def)
  next
    case F: False
    with assms(1) have "\<bar>m\<bar> < 2 ^ 53" by simp
    then have "real_of_int \<bar>m\<bar> < 2 ^ 53"
      by (metis of_int_less_iff of_int_numeral of_int_power)
    then have lt: "\<bar>?x\<bar> < 2 powi (j + 53)"
      by (simp add: ax power_int_add power_int_commutes)
    have "\<lfloor>log 2 \<bar>?x\<bar>\<rfloor> < j + 53"
    proof (rule ccontr)
      assume "\<not> \<lfloor>log 2 \<bar>?x\<bar>\<rfloor> < j + 53"
      then have "(2::real) powi (j + 53) \<le> 2 powi \<lfloor>log 2 \<bar>?x\<bar>\<rfloor>"
        by (intro power_int_increasing) simp_all
      also have "\<dots> \<le> \<bar>?x\<bar>" using binade_bounds(1) [OF x0] .
      finally show False using lt by simp
    qed
    with assms(2) show ?thesis by (simp add: ulp_exponent_def)
  qed
  have "\<exists>n. ?x / 2 powi ?e = of_int n"
  proof -
    from e_le show ?thesis
    proof
      assume le: "?e \<le> j"
      have "?x / 2 powi ?e = of_int m * 2 powi (j - ?e)"
        by (simp add: power_int_diff)
      also have "\<dots> = of_int (m * 2 ^ nat (j - ?e))"
        using le by (simp add: power_int_nonneg_exp)
      finally show ?thesis by blast
    next
      assume h: "?e = j + 1 \<and> \<bar>m\<bar> = 2 ^ 53"
      then have "even m" by (metis even_abs_add_iff even_add even_numeral even_power zero_less_numeral)
      then obtain q where q: "m = 2 * q" by (auto elim: evenE)
      have "?x / 2 powi ?e = of_int m * 2 powi (j - ?e)"
        by (simp add: power_int_diff)
      also have "\<dots> = of_int q" using h by (simp add: q power_int_minus)
      finally show ?thesis by blast
    qed
  qed
  then obtain n where n: "?x / 2 powi ?e = of_int n" by blast
  have "fl ?x = of_int (round_half_even (?x / 2 powi ?e)) * 2 powi ?e"
    using x0 by (simp add: fl_def)
  also have "\<dots> = (?x / 2 powi ?e) * 2 powi ?e" by (simp add: n)
  also have "\<dots> = ?x" by simp
  finally show ?thesis .
qed

lemma fl_of_int: "\<bar>n\<bar> \<le> 2 ^ 53 \<Longrightarrow> fl (of_int n) = of_int n"
  using fl_dyadic [of n 0] by simp

lemma round_half_even_cases:
  "round_half_even y = \<lfloor>y\<rfloor> \<or> round_half_even y = \<lfloor>y\<rfloor> + 1"
  by (simp add: round_half_even_def Let_def)

lemma round_half_even_bound:
  assumes "\<bar>y\<bar> < 2 ^ 53"
  shows "\<bar>round_half_even y\<bar> \<le> 2 ^ 53"
proof -
  have "y < of_int (2 ^ 53)" "of_int (- (2 ^ 53)) \<le> y" using assms by auto
  then have "\<lfloor>y\<rfloor> < 2 ^ 53" "- (2 ^ 53) \<le> \<lfloor>y\<rfloor>"
    by (simp_all only: floor_less_iff le_floor_iff)
  with round_half_even_cases [of y] show ?thesis by linarith
qed

lemma fl_fl [simp]: "fl (fl x) = fl x"
proof (cases "x = 0")
  case True
  then show ?thesis by simp
next
  case False
  let ?e = "ulp_exponent x"
  let ?n = "round_half_even (x / 2 powi ?e)"
  have "\<bar>x / 2 powi ?e\<bar> < 2 ^ 53"
  proof -
    have "\<bar>x\<bar> < 2 powi (?e + 53)" using ulp_exponent_le [OF False] .
    then have "\<bar>x\<bar> / 2 powi ?e < 2 powi (?e + 53) / 2 powi ?e"
      by (simp add: divide_strict_right_mono)
    then show ?thesis by (simp add: power_int_add abs_divide)
  qed
  then have "\<bar>?n\<bar> \<le> 2 ^ 53" by (rule round_half_even_bound)
  moreover have "- 1074 \<le> ?e" by (simp add: ulp_exponent_def)
  ultimately have "fl (of_int ?n * 2 powi ?e) = of_int ?n * 2 powi ?e" by (rule fl_dyadic)
  then show ?thesis using False by (simp add: fl_def)
qed

lemma fl_error:
  assumes "x \<noteq> 0"
  shows "\<bar>fl x - x\<bar> \<le> 2 powi ulp_exponent x / 2"
proof -
  let ?e = "ulp_exponent x"
  let ?y = "x / 2 powi ?e"
  have "fl x - x = (of_int (round_half_even ?y) - ?y) * 2 powi ?e"
    using assms by (simp add: fl_def algebra_simps)
  then have "\<bar>fl x - x\<bar> = \<bar>of_int (round_half_even ?y) - ?y\<bar> * 2 powi ?e"
    by (simp add: abs_mult)
  also have "\<dots> \<le> (1 / 2) * 2 powi ?e"
    by (intro mult_right_mono round_half_even_error) simp
  finally show ?thesis by simp
qed


lemma floor_log_less:
  assumes "x \<noteq> 0" "\<bar>x\<bar> < 2 powi K"
  shows "\<lfloor>log 2 \<bar>x\<bar>\<rfloor> < K"
proof (rule ccontr)
  assume "\<not> \<lfloor>log 2 \<bar>x\<bar>\<rfloor> < K"
  then have "(2::real) powi K \<le> 2 powi \<lfloor>log 2 \<bar>x\<bar>\<rfloor>"
    by (intro power_int_increasing) simp_all
  also have "\<dots> \<le> \<bar>x\<bar>" using binade_bounds(1) [OF assms(1)] .
  finally show False using assms(2) by simp
qed

lemma fl_error_below:
  assumes "x \<noteq> 0" "\<bar>x\<bar> < 2 powi K" "- 1021 \<le> K"
  shows "\<bar>fl x - x\<bar> \<le> 2 powi (K - 54)"
proof -
  have "ulp_exponent x \<le> K - 53"
    using floor_log_less [OF assms(1,2)] assms(3) by (simp add: ulp_exponent_def)
  then have "(2::real) powi ulp_exponent x \<le> 2 powi (K - 53)"
    by (intro power_int_increasing) simp_all
  also have "\<dots> = 2 * 2 powi (K - 54)"
    using power_int_add [of "2::real" 1 "K - 54"] by simp
  finally have "(2::real) powi ulp_exponent x / 2 \<le> 2 powi (K - 54)" by simp
  with fl_error [OF assms(1)] show ?thesis by linarith
qed

lemma gif_duration:
  assumes "0 < fps"
  shows "py_int (fl (1000 / of_int fps)) = 1000 div fps"
proof -
  let ?x = "1000 / real_of_int fps"
  let ?q = "1000 div fps"
  let ?r = "1000 mod fps"
  have fps: "0 < real_of_int fps" using assms by simp
  have x0: "?x \<noteq> 0" "0 < ?x" using assms by simp_all
  have nonneg: "0 \<le> fl ?x" using x0 by (intro fl_nonneg) simp
  have split: "?x = of_int ?q + of_int ?r / of_int fps"
  proof -
    have "fps * ?q + ?r = 1000" by simp
    then have "real_of_int (fps * ?q + ?r) = real_of_int 1000" by (rule arg_cong)
    then have "real_of_int fps * of_int ?q + of_int ?r = 1000"
      by (simp only: of_int_add of_int_mult of_int_numeral)
    then show ?thesis using fps by (simp add: field_simps)
  qed
  have r: "0 \<le> ?r" "?r < fps" using assms by simp_all
  have "\<lfloor>fl ?x\<rfloor> = ?q"
  proof (cases "?r = 0")
    case True
    then have "?x = of_int ?q" using split by simp
    moreover have "\<bar>?q\<bar> \<le> 2 ^ 53"
    proof -
      have "0 \<le> ?q" using assms by (simp add: pos_imp_zdiv_nonneg_iff)
      moreover have "?q \<le> 1000" using zdiv_mono2 [of 1000 1 fps] assms by simp
      ultimately show ?thesis by simp
    qed
    ultimately have "fl ?x = of_int ?q" by (simp add: fl_of_int)
    then show ?thesis by simp
  next
    case False
    with r have r1: "1 \<le> ?r" "?r \<le> fps - 1" by simp_all
    have lo: "of_int ?q + 1 / of_int fps \<le> ?x"
      using r1(1) fps by (simp add: split divide_right_mono)
    have "real_of_int ?r \<le> real_of_int (fps - 1)" using r1(2) by (simp only: of_int_le_iff)
    then have "real_of_int ?r \<le> of_int fps - 1" by simp
    then have "real_of_int ?r / of_int fps \<le> (of_int fps - 1) / of_int fps"
      using fps by (intro divide_right_mono) simp_all
    moreover have "(real_of_int fps - 1) / of_int fps = 1 - 1 / of_int fps"
      using fps by (simp add: diff_divide_distrib)
    ultimately have "real_of_int ?r / of_int fps \<le> 1 - 1 / of_int fps" by simp
    then have hi: "?x \<le> of_int ?q + 1 - 1 / of_int fps"
      using split by linarith
    show ?thesis
    proof (cases "fps \<le> 1000")
      case True
      then have "real_of_int fps \<le> 1000" by simp
      then have inv: "1 / 1000 \<le> 1 / real_of_int fps"
        using fps by (simp add: field_simps)
      have "1 \<le> real_of_int fps" using assms by linarith
      then have "?x \<le> 1000" by (simp add: field_simps)
      then have "\<bar>?x\<bar> < 2 powi 10" using x0 by simp
      from fl_error_below [OF x0(1) this]
      have "\<bar>fl ?x - ?x\<bar> \<le> 2 powi (- 44)" by simp
      also have "\<dots> < 1 / 1000" by simp
      finally have "\<bar>fl ?x - ?x\<bar> < 1 / real_of_int fps" using inv by linarith
      with lo hi have "of_int ?q \<le> fl ?x" "fl ?x < of_int ?q + 1" by linarith+
      then show ?thesis by (simp add: floor_unique)
    next
      case F: False
      then have big: "1001 \<le> real_of_int fps" by linarith
      then have q0: "?q = 0" using F by (simp add: div_pos_pos_trivial)
      have x1a: "?x \<le> 1000 / 1001" using big fps by (simp add: field_simps)
      then have "?x < 1" by linarith
      then have "\<bar>?x\<bar> < 1" using x0(2) by linarith
      then have x1: "?x \<le> 1000 / 1001" "\<bar>?x\<bar> < 2 powi 0" using x1a by simp_all
      from fl_error_below [OF x0(1) x1(2)]
      have "\<bar>fl ?x - ?x\<bar> \<le> 2 powi (- 54)" by simp
      also have "\<dots> < 1 / 1001" by simp
      finally have "fl ?x < 1" using x1(1) by linarith
      with nonneg q0 show ?thesis by (simp add: floor_unique)
    qed
  qed
  with nonneg show ?thesis by (simp add: py_int_def)
qed


lemma fl_small_values [simp]:
  "fl 1 = 1" "fl 2 = 2" "fl (1 / 2) = 1 / 2" "fl 1000 = 1000"
  using fl_of_int [of 1] fl_of_int [of 2] fl_dyadic [of 1 "- 1"] fl_of_int [of 1000]
  by (simp_all add: power_int_minus)

lemma fl_step_size [simp]:
  "fl (3602879701896397 / 72057594037927936) = 3602879701896397 / 72057594037927936"
  using fl_fl [of "1 / 20"] by (simp only: fl_one_twentieth)

lemma fl_two_steps:
  "fl (3602879701896397 / 72057594037927936 + 3602879701896397 / 72057594037927936)
     = 3602879701896397 / 36028797018963968"
proof -
  have "fl (3602879701896397 / 36028797018963968)
      = of_int (round_half_even ((3602879701896397 / 36028797018963968) / 2 powi (- 56)))
        * 2 powi (- 56)"
    by (rule fl_eval [where k = "- 4"]) simp_all
  also have "round_half_even ((3602879701896397 / 36028797018963968) / 2 powi (- 56))
      = 7205759403792794"
    by (simp add: round_half_even_def Let_def)
  finally show ?thesis by simp
qed

lemma fl_three_steps:
  "fl (3602879701896397 / 36028797018963968 + 3602879701896397 / 72057594037927936)
     = 1351079888211149 / 9007199254740992"
proof -
  have "fl (10808639105689191 / 72057594037927936)
      = of_int (round_half_even ((10808639105689191 / 72057594037927936) / 2 powi (- 55)))
        * 2 powi (- 55)"
    by (rule fl_eval [where k = "- 3"]) simp_all
  also have "round_half_even ((10808639105689191 / 72057594037927936) / 2 powi (- 55))
      = 5404319552844596"
    by (simp add: round_half_even_def Let_def)
  finally show ?thesis by simp
qed

lemma fl_step_back:
  "fl (1351079888211149 / 9007199254740992 - 3602879701896397 / 72057594037927936)
     = 7205759403792795 / 72057594037927936"
proof -
  have "fl (7205759403792795 / 72057594037927936)
      = of_int (round_half_even ((7205759403792795 / 72057594037927936) / 2 powi (- 56)))
        * 2 powi (- 56)"
    by (rule fl_eval [where k = "- 4"]) simp_all
  also have "round_half_even ((7205759403792795 / 72057594037927936) / 2 powi (- 56))
      = 7205759403792795"
    by (simp add: round_half_even_def Let_def)
  finally show ?thesis by simp
qed

lemma fl_two_times_step:
  "fl (2 * (3602879701896397 / 72057594037927936)) = 7205759403792794 / 72057594037927936"
  using fl_two_steps by simp

lemma fl_half_step:
  "fl (1 / 2 + 3602879701896397 / 72057594037927936) = 2476979795053773 / 4503599627370496"
proof -
  have "fl (39631676720860365 / 72057594037927936)
      = of_int (round_half_even ((39631676720860365 / 72057594037927936) / 2 powi (- 53)))
        * 2 powi (- 53)"
    by (rule fl_eval [where k = "- 1"]) simp_all
  also have "round_half_even ((39631676720860365 / 72057594037927936) / 2 powi (- 53))
      = 4953959590107546"
    by (simp add: round_half_even_def Let_def)
  finally show ?thesis by simp
qed

lemma fl_half_step_back:
  "fl (2476979795053773 / 4503599627370496 - 3602879701896397 / 72057594037927936) = 1 / 2"
proof -
  have "fl (36028797018963971 / 72057594037927936)
      = of_int (round_half_even ((36028797018963971 / 72057594037927936) / 2 powi (- 53)))
        * 2 powi (- 53)"
    by (rule fl_eval [where k = "- 1"]) simp_all
  also have "round_half_even ((36028797018963971 / 72057594037927936) / 2 powi (- 53))
      = 4503599627370496"
    by (simp add: round_half_even_def Let_def)
  finally show ?thesis by simp
qed

lemma fl_double: "fl (fl x + fl x) = fl x + fl x"
proof (cases "x = 0")
  case True
  then show ?thesis by simp
next
  case False
  let ?e = "ulp_exponent x"
  let ?n = "round_half_even (x / 2 powi ?e)"
  have "\<bar>x / 2 powi ?e\<bar> < 2 ^ 53"
  proof -
    have "\<bar>x\<bar> < 2 powi (?e + 53)" using ulp_exponent_le [OF False] .
    then have "\<bar>x\<bar> / 2 powi ?e < 2 powi (?e + 53) / 2 powi ?e"
      by (simp add: divide_strict_right_mono)
    then show ?thesis by (simp add: power_int_add abs_divide)
  qed
  then have "\<bar>?n\<bar> \<le> 2 ^ 53" by (rule round_half_even_bound)
  moreover have "- 1074 \<le> ?e + 1" by (simp add: ulp_exponent_def)
  ultimately have "fl (of_int ?n * 2 powi (?e + 1)) = of_int ?n * 2 powi (?e + 1)"
    by (rule fl_dyadic)
  moreover have "fl x = of_int ?n * 2 powi ?e" using False by (simp add: fl_def)
  moreover have "of_int ?n * 2 powi (?e + 1) = of_int ?n * 2 powi ?e + of_int ?n * (2::real) powi ?e"
    by (simp add: power_int_add)
  ultimately show ?thesis by simp
qed

lemma fl_max_0 [simp]: "fl (max 0 (fl x)) = max 0 (fl x)"
  by (simp add: max_def)

declare fl_one_twentieth [simp]

section \<open>Entities: \<open>add\<close> and \<open>remove\<close>\<close>

lemma filter_remove1_neq:
  "filter (\<lambda>y. y \<noteq> x) (remove1 x xs) = filter (\<lambda>y. y \<noteq> x) xs"
  by (induction xs) auto

lemma remove1_distinct_filter:
  "distinct xs \<Longrightarrow> remove1 x xs = filter (\<lambda>y. y \<noteq> x) xs"
  by (induction xs) (auto simp: remove1_idem)

lemma add_present: "set objs \<subseteq> set (objects s) \<Longrightarrow> add objs s = s"
  by (induction objs arbitrary: s) auto

text \<open>
  Claim C6. Adding an entity that is already in the Scene changes nothing: the whole
  state, hence the entity count and the draw order, stays as it was. Adding an entity
  that is not yet present appends it at the end of the draw order and sets its
  back-reference to this Scene.
\<close>

theorem add_idempotent:
  "(obj \<in> set (objects s) \<longrightarrow>
      add [obj] s = s \<and> length (objects (add [obj] s)) = length (objects s)
      \<and> objects (add [obj] s) = objects s)
   \<and> (obj \<notin> set (objects s) \<longrightarrow>
      objects (add [obj] s) = objects s @ [obj]
      \<and> ent_scene (add [obj] s) obj = Some (self s))"
  by simp

theorem add_idempotent_witness:
  "7 \<in> set (objects (add [7] (fresh_scene 2)))
   \<and> add [7] (add [7] (fresh_scene 2)) = add [7] (fresh_scene 2)
   \<and> 8 \<notin> set (objects (add [7] (fresh_scene 2)))
   \<and> objects (add [8] (add [7] (fresh_scene 2))) = [7, 8]
   \<and> ent_scene (add [8] (add [7] (fresh_scene 2))) 8 = Some 0"
  using add_idempotent [of 7 "add [7] (fresh_scene 2)"]
        add_idempotent [of 8 "add [7] (fresh_scene 2)"]
  by (simp add: fresh_scene_def Scene_init_def construct_def valid_viewport_def)

text \<open>
  Claim C10. Removing an entity that is not in the Scene leaves the whole state as it
  was. Removing one that is present deletes its (first) entry from the draw order and
  sets its back-reference to None, and changes nothing else: the other entities keep
  their order and back-references, and the active and original animation lists, the
  animations themselves and the Timeline are untouched. The call returns the same Scene
  object.
\<close>

theorem remove_frame:
  "(obj \<notin> set (objects s) \<longrightarrow> remove obj s = s)
   \<and> (obj \<in> set (objects s) \<longrightarrow>
        remove obj s = s\<lparr>objects := remove1 obj (objects s),
                         ent_scene := (ent_scene s)(obj := None)\<rparr>
        \<and> ent_scene (remove obj s) obj = None
        \<and> (\<forall>o'. o' \<noteq> obj \<longrightarrow> ent_scene (remove obj s) o' = ent_scene s o')
        \<and> filter (\<lambda>o'. o' \<noteq> obj) (objects (remove obj s)) = filter (\<lambda>o'. o' \<noteq> obj) (objects s)
        \<and> length (objects (remove obj s)) = length (objects s) - 1
        \<and> (distinct (objects s) \<longrightarrow> objects (remove obj s) = filter (\<lambda>o'. o' \<noteq> obj) (objects s))
        \<and> animations (remove obj s) = animations s
        \<and> original_animations (remove obj s) = original_animations s
        \<and> anim_store (remove obj s) = anim_store s
        \<and> timeline (remove obj s) = timeline s
        \<and> self (remove obj s) = self s)"
  by (simp add: remove_def length_remove1 filter_remove1_neq remove1_distinct_filter)

theorem remove_frame_witness:
  "5 \<notin> set (objects (add [7, 8] (fresh_scene 2)))
   \<and> remove 5 (add [7, 8] (fresh_scene 2)) = add [7, 8] (fresh_scene 2)
   \<and> 7 \<in> set (objects (add [7, 8] (fresh_scene 2)))
   \<and> objects (remove 7 (add [7, 8] (fresh_scene 2))) = [8]
   \<and> ent_scene (remove 7 (add [7, 8] (fresh_scene 2))) 7 = None
   \<and> ent_scene (remove 7 (add [7, 8] (fresh_scene 2))) 8 = Some 0"
  using remove_frame [of 5 "add [7, 8] (fresh_scene 2)"]
        remove_frame [of 7 "add [7, 8] (fresh_scene 2)"]
  by (simp add: fresh_scene_def Scene_init_def construct_def valid_viewport_def)

section \<open>The loops in closed form\<close>

lemma update_each_eq:
  "update_each as dt s =
     s\<lparr>anim_store := update_store dt as (anim_store s),
       trace := trace s @ map (\<lambda>a. AnimUpdate a dt) as\<rparr>"
  by (induction as arbitrary: s) (simp_all add: anim_update_def)

lemma reset_each_eq:
  "reset_each as s =
     s\<lparr>anim_store := reset_store as (anim_store s), trace := trace s @ map AnimReset as\<rparr>"
  by (induction as arbitrary: s) (simp_all add: anim_reset_def)

lemma restore_each_eq:
  "restore_each as s =
     s\<lparr>animations := animations s @ missing (animations s) as,
       anim_store := reset_store (missing (animations s) as) (anim_store s),
       trace := trace s @ map AnimReset (missing (animations s) as)\<rparr>"
  by (induction as arbitrary: s) (simp_all add: anim_reset_def)

lemma step_eq:
  "step dt s =
     s\<lparr>timeline := Timeline_update dt (timeline s),
       anim_store := update_store dt (animations s) (anim_store s),
       trace := trace s @ TimelineUpdate dt # map (\<lambda>a. AnimUpdate a dt) (animations s)\<rparr>"
  by (simp add: step_def tl_update_def update_each_eq)

lemma update_collect_snd: "snd (update_collect as dt fin s) = update_each as dt s"
  by (induction as arbitrary: fin s) (simp_all add: Let_def)

lemma remove_each_eq:
  "remove_each fin s = s\<lparr>animations := fold remove1 fin (animations s)\<rparr>"
  by (induction fin arbitrary: s) simp_all

lemma update_eq:
  "update dt s =
     (if paused s then s
      else (step dt s)\<lparr>animations :=
             fold remove1 (fst (update_collect (animations s) dt [] (tl_update dt s)))
               (animations s)\<rparr>)"
  by (simp add: update_def Let_def split_beta remove_each_eq update_collect_snd step_def
        update_each_eq tl_update_def)

lemma count_list_remove1:
  "count_list (remove1 a xs) x
     = (if x = a \<and> a \<in> set xs then count_list xs x - 1 else count_list xs x)"
  by (induction xs) auto

lemma update_collect_finished_sub:
  "count_list (fst (update_collect as dt fin s)) x \<le> count_list fin x + count_list as x"
proof (induction as arbitrary: fin s)
  case Nil
  show ?case by simp
next
  case (Cons a as)
  let ?s1 = "anim_update a dt s"
  let ?fin = "if is_finished (anim_store ?s1 a) then fin @ [a] else fin"
  have "count_list (fst (update_collect as dt ?fin ?s1)) x
      \<le> count_list ?fin x + count_list as x"
    by (rule Cons.IH)
  also have "\<dots> \<le> count_list fin x + count_list (a # as) x" by simp
  finally show ?case by (simp add: Let_def)
qed

lemma remove_each_checked_ok:
  "(\<forall>x. count_list fin x \<le> count_list xs x) \<Longrightarrow>
     remove_each_checked fin xs = Inr (fold remove1 fin xs)"
proof (induction fin arbitrary: xs)
  case Nil
  show ?case by simp
next
  case (Cons a fin)
  from Cons.prems have "1 \<le> count_list xs a"
    by (metis count_list.simps(2) le_add2 le_trans plus_1_eq_Suc)
  then have a: "a \<in> set xs" by (metis count_list_0_iff not_one_le_zero)
  have "\<forall>x. count_list fin x \<le> count_list (remove1 a xs) x"
  proof
    fix x
    from Cons.prems have "count_list (a # fin) x \<le> count_list xs x" by blast
    then show "count_list fin x \<le> count_list (remove1 a xs) x"
      using a by (auto simp: count_list_remove1 split: if_splits)
  qed
  with Cons.IH a show ?case by simp
qed

lemma update_removal_never_raises:
  "remove_each_checked (fst (update_collect (animations s) dt [] s')) (animations s)
     = Inr (fold remove1 (fst (update_collect (animations s) dt [] s')) (animations s))"
  using update_collect_finished_sub [of "animations s" dt "[]" s']
  by (intro remove_each_checked_ok) simp

lemma render_eq:
  "render s =
     s\<lparr>framebuffer := render_calls (if dim s = 2 then Setup2DProjection else Setup3DProjection) s,
       trace := trace s @ map Render
         (render_calls (if dim s = 2 then Setup2DProjection else Setup3DProjection) s)\<rparr>"
  by (simp add: render_def render_2d_def render_3d_def issue_def)


section \<open>Replay\<close>

lemma reset_store_apply:
  "reset_store as st a = (if a \<in> set as then animation_reset (st a) else st a)"
  by (induction as arbitrary: st) (auto simp: animation_reset_def)

lemma set_missing: "set (missing active as) = set as - set active"
  by (induction as arbitrary: active) auto

lemma distinct_missing: "distinct (missing active as)"
  by (induction as arbitrary: active) (auto simp: set_missing)

lemma missing_distinct_filter:
  "distinct as \<Longrightarrow> missing active as = filter (\<lambda>a. a \<notin> set active) as"
proof (induction as arbitrary: active)
  case Nil
  show ?case by simp
next
  case (Cons a as)
  have "filter (\<lambda>b. b \<notin> set (active @ [a])) as = filter (\<lambda>b. b \<notin> set active) as"
    using Cons.prems by (intro filter_cong) auto
  with Cons show ?case by simp
qed

lemma replay_eq:
  "replay s =
     s\<lparr>animations := animations s @ missing (animations s) (original_animations s),
       anim_store := reset_store (missing (animations s) (original_animations s))
                       (reset_store (animations s) (anim_store s)),
       timeline := \<lparr>current_time = 0, mode = Playing\<rparr>,
       paused := False,
       trace := trace s @ map AnimReset (animations s)
                @ map AnimReset (missing (animations s) (original_animations s))
                @ [TimelineStop, TimelinePlay]\<rparr>"
  by (simp add: replay_def Let_def reset_each_eq restore_each_eq tl_stop_def tl_play_def
        Timeline_stop_def Timeline_play_def)

lemma remdups_snoc: "remdups (ys @ [a]) = remdups (filter (\<lambda>y. y \<noteq> a) ys) @ [a]"
  by (induction ys) auto

lemma first_occurrences_Cons:
  "rev (remdups (rev (a # xs))) = a # rev (remdups (rev (filter (\<lambda>y. y \<noteq> a) xs)))"
  by (simp add: remdups_snoc rev_filter)

lemma missing_first_occurrences:
  "missing active as = rev (remdups (rev (filter (\<lambda>a. a \<notin> set active) as)))"
proof (induction as arbitrary: active)
  case Nil
  show ?case by simp
next
  case (Cons a as)
  show ?case
  proof (cases "a \<in> set active")
    case True
    with Cons show ?thesis by simp
  next
    case False
    have "filter (\<lambda>y. y \<noteq> a) (filter (\<lambda>a. a \<notin> set active) as)
        = filter (\<lambda>b. b \<notin> set (active @ [a])) as"
      by (auto intro: filter_cong)
    with False Cons [of "active @ [a]"] show ?thesis
      by (simp add: first_occurrences_Cons del: rev.simps)
  qed
qed

text \<open>
  Claim C1, as amended. \<open>replay\<close> resets every animation of the original list to
  progress zero, stops and then plays the Timeline (elapsed time zero, playing) and
  clears the paused flag. The active list afterwards is the old active list, unchanged
  and in front, followed by the originals that were missing from it, each once, in the
  order of their first registration (for an original list without duplicates: the
  missing originals in registration order). As a set it is the union of the old active
  set and the original set, hence the original set whenever the active animations were
  among the originals. The original list itself is unchanged.
\<close>

theorem replay_restores:
  "(\<forall>a \<in> set (original_animations s). elapsed (anim_store (replay s) a) = 0)
   \<and> animations (replay s)
       = animations s
         @ rev (remdups (rev (filter (\<lambda>a. a \<notin> set (animations s)) (original_animations s))))
   \<and> set (animations (replay s)) = set (animations s) \<union> set (original_animations s)
   \<and> (set (animations s) \<subseteq> set (original_animations s) \<longrightarrow>
        set (animations (replay s)) = set (original_animations s))
   \<and> (distinct (original_animations s) \<longrightarrow>
        animations (replay s)
          = animations s @ filter (\<lambda>a. a \<notin> set (animations s)) (original_animations s))
   \<and> original_animations (replay s) = original_animations s
   \<and> timeline (replay s) = \<lparr>current_time = 0, mode = Playing\<rparr>
   \<and> paused (replay s) = False"
proof -
  have "animations (replay s)
       = animations s
         @ rev (remdups (rev (filter (\<lambda>a. a \<notin> set (animations s)) (original_animations s))))"
    by (simp add: replay_eq missing_first_occurrences)
  moreover have "(\<forall>a \<in> set (original_animations s). elapsed (anim_store (replay s) a) = 0)
   \<and> set (animations (replay s)) = set (animations s) \<union> set (original_animations s)
   \<and> (set (animations s) \<subseteq> set (original_animations s) \<longrightarrow>
        set (animations (replay s)) = set (original_animations s))
   \<and> (distinct (original_animations s) \<longrightarrow>
        animations (replay s)
          = animations s @ filter (\<lambda>a. a \<notin> set (animations s)) (original_animations s))
   \<and> original_animations (replay s) = original_animations s
   \<and> timeline (replay s) = \<lparr>current_time = 0, mode = Playing\<rparr>
   \<and> paused (replay s) = False"
    by (auto simp: replay_eq reset_store_apply set_missing missing_distinct_filter
        animation_reset_def)
  ultimately show ?thesis by blast
qed

text \<open>
  Claim C1 as stated fails on the order: after the first registered animation has
  finished and been dropped by \<open>update\<close>, \<open>replay\<close> puts it behind the one that
  was still running.
\<close>

theorem replay_order_counterexample:
  "original_animations (update 1 (tl_play demo_scene)) = [0, 1]
   \<and> animations (update 1 (tl_play demo_scene)) = [1]
   \<and> animations (replay (update 1 (tl_play demo_scene))) = [1, 0]
   \<and> animations (replay (update 1 (tl_play demo_scene)))
       \<noteq> original_animations (replay (update 1 (tl_play demo_scene)))"
  by (simp add: replay_eq update_eq step_eq demo_scene_def demo_store_def idle_def
      Scene_init_def construct_def valid_viewport_def add_animation_def tl_play_def tl_update_def anim_update_def
      animation_update_def is_finished_def Let_def)

theorem replay_restores_witness:
  "set (animations (update 1 (tl_play demo_scene)))
     \<subseteq> set (original_animations (update 1 (tl_play demo_scene)))
   \<and> distinct (original_animations (update 1 (tl_play demo_scene)))
   \<and> 0 \<in> set (original_animations (update 1 (tl_play demo_scene)))
   \<and> elapsed (anim_store (update 1 (tl_play demo_scene)) 0) \<noteq> 0
   \<and> elapsed (anim_store (replay (update 1 (tl_play demo_scene))) 0) = 0
   \<and> set (animations (replay (update 1 (tl_play demo_scene)))) = {0, 1}"
  using replay_restores [of "update 1 (tl_play demo_scene)"]
  by (simp add: update_eq step_eq demo_scene_def demo_store_def idle_def
      Scene_init_def construct_def valid_viewport_def add_animation_def tl_play_def tl_update_def anim_update_def
      animation_update_def is_finished_def Let_def insert_commute Timeline_def
      Timeline_play_def Timeline_update_def)

section \<open>Render dispatch\<close>

lemma find_active_Some:
  "find_active st obj as = Some a \<longleftrightarrow>
     (\<exists>pre post. as = pre @ a # post \<and> kind (st a) = VectorAnimation obj
        \<and> (\<forall>b \<in> set pre. kind (st b) \<noteq> VectorAnimation obj))"
proof (induction as)
  case Nil
  show ?case by simp
next
  case (Cons x as)
  show ?case
  proof (cases "kind (st x) = VectorAnimation obj")
    case True
    have "(\<exists>pre post. x # as = pre @ a # post \<and> kind (st a) = VectorAnimation obj
        \<and> (\<forall>b \<in> set pre. kind (st b) \<noteq> VectorAnimation obj)) \<longleftrightarrow> x = a"
    proof
      assume "\<exists>pre post. x # as = pre @ a # post \<and> kind (st a) = VectorAnimation obj
        \<and> (\<forall>b \<in> set pre. kind (st b) \<noteq> VectorAnimation obj)"
      then obtain pre post where *: "x # as = pre @ a # post"
        "\<forall>b \<in> set pre. kind (st b) \<noteq> VectorAnimation obj" by blast
      show "x = a"
      proof (cases pre)
        case Nil
        with * show ?thesis by simp
      next
        case (Cons p ps)
        with * True show ?thesis by auto
      qed
    next
      assume "x = a"
      with True have "x # as = [] @ a # as \<and> kind (st a) = VectorAnimation obj
        \<and> (\<forall>b \<in> set []. kind (st b) \<noteq> VectorAnimation obj)" by simp
      then show "\<exists>pre post. x # as = pre @ a # post \<and> kind (st a) = VectorAnimation obj
        \<and> (\<forall>b \<in> set pre. kind (st b) \<noteq> VectorAnimation obj)" by blast
    qed
    with True show ?thesis by auto
  next
    case False
    have "(\<exists>pre post. x # as = pre @ a # post \<and> kind (st a) = VectorAnimation obj
        \<and> (\<forall>b \<in> set pre. kind (st b) \<noteq> VectorAnimation obj))
      \<longleftrightarrow> (\<exists>pre post. as = pre @ a # post \<and> kind (st a) = VectorAnimation obj
        \<and> (\<forall>b \<in> set pre. kind (st b) \<noteq> VectorAnimation obj))" (is "?L \<longleftrightarrow> ?R")
    proof
      assume ?L
      then obtain pre post where *: "x # as = pre @ a # post"
        "kind (st a) = VectorAnimation obj"
        "\<forall>b \<in> set pre. kind (st b) \<noteq> VectorAnimation obj" by blast
      show ?R
      proof (cases pre)
        case Nil
        with * False show ?thesis by simp
      next
        case (Cons p ps)
        with * have "as = ps @ a # post" "\<forall>b \<in> set ps. kind (st b) \<noteq> VectorAnimation obj"
          by auto
        with * show ?thesis by blast
      qed
    next
      assume ?R
      then obtain pre post where *: "as = pre @ a # post"
        "kind (st a) = VectorAnimation obj"
        "\<forall>b \<in> set pre. kind (st b) \<noteq> VectorAnimation obj" by blast
      with False have "x # as = (x # pre) @ a # post"
        "\<forall>b \<in> set (x # pre). kind (st b) \<noteq> VectorAnimation obj" by auto
      with * show ?L by blast
    qed
    with False Cons.IH show ?thesis by simp
  qed
qed

lemma find_active_None:
  "find_active st obj as = None \<longleftrightarrow> (\<forall>a \<in> set as. kind (st a) \<noteq> VectorAnimation obj)"
  by (induction as) auto

lemma find_active_in: "find_active st obj as = Some a \<Longrightarrow> a \<in> set as \<and> kind (st a) = VectorAnimation obj"
  by (induction as) (auto split: if_splits)


lemma is_vector_call_simps [simp]:
  "\<not> is_vector_call Clear" "\<not> is_vector_call Setup2DProjection"
  "\<not> is_vector_call Setup3DProjection" "\<not> is_vector_call DrawGrid"
  "\<not> is_vector_call (DrawTransformedGrid a)" "is_vector_call (DrawAnimatedVector a)"
  "is_vector_call (DrawVector obj)" "\<not> is_vector_call (DrawControlsHint p)"
  "\<not> is_vector_call Flip"
  by (simp_all add: is_vector_call_def)

lemma is_transformed_grid_call_simps [simp]:
  "\<not> is_transformed_grid_call Clear" "\<not> is_transformed_grid_call Setup2DProjection"
  "\<not> is_transformed_grid_call Setup3DProjection" "\<not> is_transformed_grid_call DrawGrid"
  "is_transformed_grid_call (DrawTransformedGrid a)"
  "\<not> is_transformed_grid_call (DrawAnimatedVector a)"
  "\<not> is_transformed_grid_call (DrawVector obj)"
  "\<not> is_transformed_grid_call (DrawControlsHint p)"
  "\<not> is_transformed_grid_call Flip"
  by (simp_all add: is_transformed_grid_call_def)

lemma draw_object_cases:
  "draw_object s obj = DrawVector obj \<or> (\<exists>a. draw_object s obj = DrawAnimatedVector a)"
  by (auto simp: draw_object_def split: option.splits)

lemma draw_object_kind [simp]:
  "is_vector_call (draw_object s obj)" "\<not> is_transformed_grid_call (draw_object s obj)"
  "draw_object s obj \<noteq> Flip" "draw_object s obj \<noteq> DrawGrid"
  "Flip \<noteq> draw_object s obj" "DrawGrid \<noteq> draw_object s obj"
  using draw_object_cases [of s obj] by auto

lemma filter_vector_calls:
  "filter is_vector_call (render_calls su s)
     = (if is_vector_call su then [su] else []) @ map (draw_object s) (objects s)"
  by (simp add: render_calls_def filter_map o_def)

lemma filter_grid_calls:
  "filter is_transformed_grid_call (render_calls su s)
     = (if is_transformed_grid_call su then [su] else [])
       @ map DrawTransformedGrid (filter (is_grid_anim s) (animations s))"
  by (simp add: render_calls_def filter_map o_def)

lemma count_list_map_neq: "(\<And>x. f x \<noteq> c) \<Longrightarrow> count_list (map f xs) c = 0"
  by (induction xs) auto

lemma count_flip:
  "su \<noteq> Flip \<Longrightarrow> count_list (render_calls su s) Flip = 1"
  by (simp add: render_calls_def count_list_map_neq)

lemma draw_grid_iff:
  "su \<noteq> DrawGrid \<Longrightarrow> DrawGrid \<in> set (render_calls su s) \<longleftrightarrow> show_grid s"
  by (auto simp: render_calls_def)

lemma draw_object_animated:
  "draw_object s obj = DrawAnimatedVector a \<longleftrightarrow>
     find_active (anim_store s) obj (animations s) = Some a \<and> \<not> is_finished (anim_store s a)"
  by (auto simp: draw_object_def split: option.splits)

lemma draw_object_no_finished:
  assumes "\<forall>a \<in> set (animations s). \<not> is_finished (anim_store s a)"
  shows "(\<exists>a. draw_object s obj = DrawAnimatedVector a) \<longleftrightarrow> targeted_unfinished s obj"
proof
  assume "\<exists>a. draw_object s obj = DrawAnimatedVector a"
  then obtain a where "find_active (anim_store s) obj (animations s) = Some a"
    "\<not> is_finished (anim_store s a)" by (auto simp: draw_object_animated)
  then show "targeted_unfinished s obj"
    using find_active_in [of "anim_store s" obj "animations s" a]
    by (auto simp: targeted_unfinished_def targets_def)
next
  assume "targeted_unfinished s obj"
  then have "find_active (anim_store s) obj (animations s) \<noteq> None"
    by (auto simp: find_active_None targeted_unfinished_def targets_def)
  then obtain a where a: "find_active (anim_store s) obj (animations s) = Some a" by auto
  with assms have "\<not> is_finished (anim_store s a)"
    using find_active_in [of "anim_store s" obj "animations s" a] by auto
  with a show "\<exists>a. draw_object s obj = DrawAnimatedVector a"
    by (auto simp: draw_object_animated)
qed

text \<open>
  Claim C3, as amended. One render pass issues, in this order: clear and projection
  setup; the static grid iff the grid is shown, whatever the animations; one
  transformed-grid call for every active \<open>GridTransformAnimation\<close>, finished or not, in
  active order; one call per entity in insertion order; the controls hint; and exactly
  one flip, last. An entity is drawn animated iff the first active \<open>VectorAnimation\<close>
  targeting it (in active order) is unfinished, and static otherwise. When no finished
  animation is in the active list this is the same as: drawn animated iff some active,
  unfinished \<open>VectorAnimation\<close> targets it.
\<close>

theorem render_dispatch:
  "framebuffer (render s) = render_calls (setup_call s) s
   \<and> trace (render s) = trace s @ map Render (framebuffer (render s))
   \<and> filter is_vector_call (framebuffer (render s)) = map (draw_object s) (objects s)
   \<and> (draw_object s obj = DrawAnimatedVector a \<longleftrightarrow>
        (\<exists>pre post. animations s = pre @ a # post \<and> targets s obj a
           \<and> (\<forall>b \<in> set pre. \<not> targets s obj b))
        \<and> \<not> is_finished (anim_store s a))
   \<and> (draw_object s obj = DrawVector obj \<or> (\<exists>a. draw_object s obj = DrawAnimatedVector a))
   \<and> ((\<forall>a \<in> set (animations s). \<not> is_finished (anim_store s a)) \<longrightarrow>
        ((\<exists>a. draw_object s obj = DrawAnimatedVector a) \<longleftrightarrow> targeted_unfinished s obj))
   \<and> (DrawGrid \<in> set (framebuffer (render s)) \<longleftrightarrow> show_grid s)
   \<and> filter is_transformed_grid_call (framebuffer (render s))
        = map DrawTransformedGrid (filter (is_grid_anim s) (animations s))
   \<and> count_list (framebuffer (render s)) Flip = 1
   \<and> last (framebuffer (render s)) = Flip"
proof -
  have fb: "framebuffer (render s) = render_calls (setup_call s) s"
    by (simp add: render_eq setup_call_def)
  have tr: "trace (render s) = trace s @ map Render (framebuffer (render s))"
    by (simp add: render_eq)
  have su: "\<not> is_vector_call (setup_call s)" "\<not> is_transformed_grid_call (setup_call s)"
    "setup_call s \<noteq> Flip" "setup_call s \<noteq> DrawGrid"
    by (simp_all add: setup_call_def)
  have vec: "filter is_vector_call (framebuffer (render s)) = map (draw_object s) (objects s)"
    using su by (simp add: fb filter_vector_calls)
  have anim: "draw_object s obj = DrawAnimatedVector a \<longleftrightarrow>
        (\<exists>pre post. animations s = pre @ a # post \<and> targets s obj a
           \<and> (\<forall>b \<in> set pre. \<not> targets s obj b))
        \<and> \<not> is_finished (anim_store s a)"
    by (simp add: draw_object_animated find_active_Some targets_def)
  have nofin: "(\<forall>a \<in> set (animations s). \<not> is_finished (anim_store s a)) \<longrightarrow>
        ((\<exists>a. draw_object s obj = DrawAnimatedVector a) \<longleftrightarrow> targeted_unfinished s obj)"
    using draw_object_no_finished by blast
  have grd: "DrawGrid \<in> set (framebuffer (render s)) \<longleftrightarrow> show_grid s"
    using su by (simp add: fb draw_grid_iff)
  have tg: "filter is_transformed_grid_call (framebuffer (render s))
        = map DrawTransformedGrid (filter (is_grid_anim s) (animations s))"
    using su by (simp add: fb filter_grid_calls)
  have fl: "count_list (framebuffer (render s)) Flip = 1"
    using su by (simp add: fb count_flip)
  have la: "last (framebuffer (render s)) = Flip"
    by (simp add: fb render_calls_def)
  from fb tr vec anim draw_object_cases nofin grd tg fl la show ?thesis by blast
qed

text \<open>
  Claim C3 as stated fails when a finished animation is still active (after a single
  step while paused) and precedes an unfinished one on the same entity: the entity is
  drawn static although an active, unfinished animation targets it.
\<close>

theorem render_first_match_counterexample:
  "3 \<in> set (animations stepped_scene) \<and> targets stepped_scene 7 3
   \<and> \<not> is_finished (anim_store stepped_scene 3)
   \<and> targeted_unfinished stepped_scene 7
   \<and> 7 \<in> set (objects stepped_scene)
   \<and> draw_object stepped_scene 7 = DrawVector 7
   \<and> framebuffer (render stepped_scene)
       = [Clear, Setup2DProjection, DrawGrid, DrawVector 7, DrawAnimatedVector 1,
          DrawControlsHint True, Flip]"
  by (simp add: stepped_scene_def step_eq demo_scene_def demo_store_def idle_def
      Scene_init_def construct_def valid_viewport_def add_animation_def animation_update_def is_finished_def
      targeted_unfinished_def targets_def draw_object_def render_eq render_calls_def
      is_grid_anim_def Timeline_def Timeline_update_def)


theorem render_dispatch_witness:
  "animations (update 1 (tl_play demo_scene)) = [1]
   \<and> \<not> is_finished (anim_store (update 1 (tl_play demo_scene)) 1)
   \<and> targeted_unfinished (update 1 (tl_play demo_scene)) 8
   \<and> draw_object (update 1 (tl_play demo_scene)) 8 = DrawAnimatedVector 1
   \<and> framebuffer (render (update 1 (tl_play demo_scene)))
       = [Clear, Setup2DProjection, DrawGrid, DrawVector 7, DrawAnimatedVector 1,
          DrawControlsHint False, Flip]"
proof -
  have a: "animations (update 1 (tl_play demo_scene)) = [1]"
    and f: "\<not> is_finished (anim_store (update 1 (tl_play demo_scene)) 1)"
    and d: "draw_object (update 1 (tl_play demo_scene)) 8 = DrawAnimatedVector 1"
    and r: "render_calls (setup_call (update 1 (tl_play demo_scene)))
              (update 1 (tl_play demo_scene))
       = [Clear, Setup2DProjection, DrawGrid, DrawVector 7, DrawAnimatedVector 1,
          DrawControlsHint False, Flip]"
    by (simp_all add: update_eq step_eq demo_scene_def demo_store_def idle_def
      Scene_init_def construct_def valid_viewport_def add_animation_def tl_play_def tl_update_def anim_update_def
      animation_update_def is_finished_def Let_def draw_object_def render_calls_def
      is_grid_anim_def setup_call_def)
  from a f have "\<forall>a \<in> set (animations (update 1 (tl_play demo_scene))).
      \<not> is_finished (anim_store (update 1 (tl_play demo_scene)) a)" by simp
  with render_dispatch [of "update 1 (tl_play demo_scene)" 8 1] d
  have "targeted_unfinished (update 1 (tl_play demo_scene)) 8"
    and "framebuffer (render (update 1 (tl_play demo_scene)))
       = render_calls (setup_call (update 1 (tl_play demo_scene)))
              (update 1 (tl_play demo_scene))"
    by blast+
  with a f d r show ?thesis by simp
qed

section \<open>Order of effects within one step and one frame\<close>

lemma update_store_apply:
  "distinct as \<Longrightarrow>
     update_store dt as st a = (if a \<in> set as then animation_update dt (st a) else st a)"
  by (induction as arbitrary: st) auto

lemma update_collect_fst:
  "distinct as \<Longrightarrow>
     fst (update_collect as dt fin s)
       = fin @ filter (\<lambda>a. is_finished (animation_update dt (anim_store s a))) as"
proof (induction as arbitrary: fin s)
  case Nil
  show ?case by simp
next
  case (Cons x as)
  have "filter (\<lambda>a. is_finished (animation_update dt (anim_store (anim_update x dt s) a))) as
      = filter (\<lambda>a. is_finished (animation_update dt (anim_store s a))) as"
    using Cons.prems by (intro filter_cong) (auto simp: anim_update_def)
  with Cons show ?case by (simp add: Let_def anim_update_def)
qed

lemma fold_remove1_filter:
  "distinct xs \<Longrightarrow> fold remove1 ys xs = filter (\<lambda>a. a \<notin> set ys) xs"
proof (induction ys arbitrary: xs)
  case Nil
  show ?case by simp
next
  case (Cons y ys)
  then show ?case by (simp add: remove1_distinct_filter conj_commute)
qed

lemma update_animations_distinct:
  assumes "\<not> paused s" "distinct (animations s)"
  shows "animations (update dt s)
           = filter (\<lambda>a. \<not> is_finished (anim_store (update dt s) a)) (animations s)"
proof -
  have "animations (update dt s)
      = filter (\<lambda>a. a \<notin> set (filter (\<lambda>a. is_finished (animation_update dt (anim_store s a)))
                                 (animations s))) (animations s)"
    using assms
    by (simp add: update_eq step_eq fold_remove1_filter update_collect_fst tl_update_def)
  also have "\<dots> = filter (\<lambda>a. \<not> is_finished (anim_store (update dt s) a)) (animations s)"
    using assms by (intro filter_cong) (auto simp: update_eq step_eq update_store_apply)
  finally show ?thesis .
qed

text \<open>
  Claim C5, as amended. In \<open>step\<close> (also when reached by the right arrow key) and in an
  unpaused \<open>update\<close>, the Timeline is updated first and then every active animation, in
  active order. \<open>step\<close> leaves the active list as it is; \<open>update\<close> drops the finished
  animations before it returns (for an active list without duplicates none that is
  finished remains). In one frame of the interactive loop and of the capture loop the
  render calls come after all of these, the pass is computed from the updated state, and
  rendering changes neither the Timeline nor the animations nor the active list.
\<close>

theorem step_ordering:
  "trace (step dt s) = trace s @ TimelineUpdate dt # map (\<lambda>a. AnimUpdate a dt) (animations s)
   \<and> animations (step dt s) = animations s
   \<and> trace (handle_event (KEYDOWN K_RIGHT) s)
       = trace s @ TimelineUpdate (step_size s)
           # map (\<lambda>a. AnimUpdate a (step_size s)) (animations s)
   \<and> (paused s \<longrightarrow> update dt s = s)
   \<and> (\<not> paused s \<longrightarrow>
        trace (update dt s)
          = trace s @ TimelineUpdate dt # map (\<lambda>a. AnimUpdate a dt) (animations s)
        \<and> anim_store (update dt s) = anim_store (step dt s)
        \<and> timeline (update dt s) = timeline (step dt s)
        \<and> (distinct (animations s) \<longrightarrow>
             animations (update dt s)
               = filter (\<lambda>a. \<not> is_finished (anim_store (update dt s) a)) (animations s)))
   \<and> trace (show_frame dt evs s)
       = trace (update dt (handle_events evs s)) @ map Render (framebuffer (show_frame dt evs s))
   \<and> framebuffer (show_frame dt evs s)
       = render_calls (setup_call (update dt (handle_events evs s)))
           (update dt (handle_events evs s))
   \<and> animations (show_frame dt evs s) = animations (update dt (handle_events evs s))
   \<and> anim_store (show_frame dt evs s) = anim_store (update dt (handle_events evs s))
   \<and> timeline (show_frame dt evs s) = timeline (update dt (handle_events evs s))
   \<and> trace (capture_step dt s)
       = trace (update dt (call EventPump s)) @ map Render (framebuffer (capture_step dt s))
   \<and> framebuffer (capture_step dt s)
       = render_calls (setup_call (update dt (call EventPump s))) (update dt (call EventPump s))
   \<and> animations (capture_step dt s) = animations (update dt (call EventPump s))
   \<and> anim_store (capture_step dt s) = anim_store (update dt (call EventPump s))
   \<and> timeline (capture_step dt s) = timeline (update dt (call EventPump s))"
proof -
  have 1: "trace (step dt s)
      = trace s @ TimelineUpdate dt # map (\<lambda>a. AnimUpdate a dt) (animations s)"
    and 2: "animations (step dt s) = animations s"
    and 3: "trace (handle_event (KEYDOWN K_RIGHT) s)
       = trace s @ TimelineUpdate (step_size s)
           # map (\<lambda>a. AnimUpdate a (step_size s)) (animations s)"
    by (simp_all add: step_eq)
  have 4: "paused s \<longrightarrow> update dt s = s" by (simp add: update_def)
  have 5: "\<not> paused s \<longrightarrow>
        trace (update dt s)
          = trace s @ TimelineUpdate dt # map (\<lambda>a. AnimUpdate a dt) (animations s)
        \<and> anim_store (update dt s) = anim_store (step dt s)
        \<and> timeline (update dt s) = timeline (step dt s)"
    by (simp add: update_eq step_eq)
  have 6: "\<not> paused s \<longrightarrow> distinct (animations s) \<longrightarrow>
             animations (update dt s)
               = filter (\<lambda>a. \<not> is_finished (anim_store (update dt s) a)) (animations s)"
    using update_animations_distinct by blast
  have 7: "trace (show_frame dt evs s)
       = trace (update dt (handle_events evs s)) @ map Render (framebuffer (show_frame dt evs s))"
    "framebuffer (show_frame dt evs s)
       = render_calls (setup_call (update dt (handle_events evs s)))
           (update dt (handle_events evs s))"
    "animations (show_frame dt evs s) = animations (update dt (handle_events evs s))"
    "anim_store (show_frame dt evs s) = anim_store (update dt (handle_events evs s))"
    "timeline (show_frame dt evs s) = timeline (update dt (handle_events evs s))"
    by (simp_all add: show_frame_def render_eq setup_call_def)
  have 8: "trace (capture_step dt s)
       = trace (update dt (call EventPump s)) @ map Render (framebuffer (capture_step dt s))"
    "framebuffer (capture_step dt s)
       = render_calls (setup_call (update dt (call EventPump s))) (update dt (call EventPump s))"
    "animations (capture_step dt s) = animations (update dt (call EventPump s))"
    "anim_store (capture_step dt s) = anim_store (update dt (call EventPump s))"
    "timeline (capture_step dt s) = timeline (update dt (call EventPump s))"
    by (simp_all add: capture_step_def capture_frame_def render_eq setup_call_def)
  from 1 2 3 4 5 6 7 8 show ?thesis by blast
qed

text \<open>
  Claim C5 as stated fails for the explicit step entry point: it removes nothing, so
  the frame that follows a single step renders with a finished animation still active.
\<close>

theorem step_keeps_finished_counterexample:
  "animations (show_frame (1 / 60) [KEYDOWN K_RIGHT] demo_scene) = [0, 1]
   \<and> is_finished (anim_store (show_frame (1 / 60) [KEYDOWN K_RIGHT] demo_scene) 0)
   \<and> animations (step (1 / 20) demo_scene) = [0, 1]
   \<and> is_finished (anim_store (step (1 / 20) demo_scene) 0)"
  by (simp add: show_frame_def render_eq update_def step_eq demo_scene_def demo_store_def
      idle_def Scene_init_def construct_def valid_viewport_def add_animation_def animation_update_def is_finished_def)

theorem step_ordering_witness:
  "\<not> paused (tl_play demo_scene) \<and> distinct (animations (tl_play demo_scene))
   \<and> animations (update 1 (tl_play demo_scene)) = [1]
   \<and> trace (update 1 (tl_play demo_scene))
       = [TimelinePlay, TimelineUpdate 1, AnimUpdate 0 1, AnimUpdate 1 1]
   \<and> paused stepped_scene \<and> update 1 stepped_scene = stepped_scene"
  using step_ordering [of 1 "tl_play demo_scene"] step_ordering [of 1 stepped_scene]
  by (simp add: stepped_scene_def step_eq demo_scene_def demo_store_def idle_def
      Scene_init_def construct_def valid_viewport_def add_animation_def tl_play_def animation_update_def is_finished_def)

section \<open>The capture loops\<close>

lemma capture_step_fields:
  "recording (capture_step dt s) = recording s"
  "paused (capture_step dt s) = paused s"
  "width (capture_step dt s) = width s"
  "height (capture_step dt s) = height s"
  "frames (capture_step dt s)
     = (if recording s
        then frames s @ [\<lparr>img_width = width s, img_height = height s,
                           pixels = framebuffer (capture_step dt s)\<rparr>]
        else frames s)"
  by (simp_all add: capture_step_def capture_frame_def render_eq update_eq step_eq call_def)

lemma capture_steps_recording: "recording ((capture_step dt ^^ n) s) = recording s"
  by (induction n) (simp_all add: capture_step_fields)

lemma capture_steps_length:
  "recording s \<Longrightarrow> length (frames ((capture_step dt ^^ n) s)) = length (frames s) + n"
  by (induction n) (simp_all add: capture_step_fields capture_steps_recording)

lemma record_play_loop_result:
  "record_play_loop dt c s = (c', s') \<Longrightarrow>
     c \<le> c' \<and> (c \<le> 300 \<longrightarrow> c' \<le> 300)
     \<and> s' = (capture_step dt ^^ (c' - c)) s
     \<and> (animations s' = [] \<or> 300 \<le> c')
     \<and> (\<forall>j < c' - c. animations ((capture_step dt ^^ j) s) \<noteq> [])"
proof (induction dt c s rule: record_play_loop.induct)
  case (1 dt c s)
  show ?case
  proof (cases "animations s \<noteq> [] \<and> c < 300")
    case False
    with "1.prems" have "c' = c" "s' = s"
      by (simp_all add: record_play_loop.simps [of dt c s])
    with False show ?thesis by auto
  next
    case True
    with "1.prems" have run: "record_play_loop dt (Suc c) (capture_step dt s) = (c', s')"
      by (simp add: record_play_loop.simps [of dt c s])
    from "1.IH" [OF True run]
    have ih: "Suc c \<le> c'" "c' \<le> 300"
      "s' = (capture_step dt ^^ (c' - Suc c)) (capture_step dt s)"
      "animations s' = [] \<or> 300 \<le> c'"
      "\<forall>j < c' - Suc c. animations ((capture_step dt ^^ j) (capture_step dt s)) \<noteq> []"
      using True by auto
    have eq: "c' - c = Suc (c' - Suc c)" using ih(1) by simp
    have s': "s' = (capture_step dt ^^ (c' - c)) s"
      unfolding eq using ih(3) by (simp add: funpow_swap1)
    have nonempty: "\<forall>j < c' - c. animations ((capture_step dt ^^ j) s) \<noteq> []"
    proof (intro allI impI)
      fix j assume j: "j < c' - c"
      show "animations ((capture_step dt ^^ j) s) \<noteq> []"
      proof (cases j)
        case 0
        with True show ?thesis by simp
      next
        case (Suc k)
        with j have "k < c' - Suc c" by simp
        with ih(5) have "animations ((capture_step dt ^^ k) (capture_step dt s)) \<noteq> []" by blast
        with Suc show ?thesis by (simp add: funpow_swap1)
      qed
    qed
    from ih s' nonempty show ?thesis by auto
  qed
qed

lemma render_calls_cong:
  assumes "show_grid s' = show_grid s" "animations s' = animations s"
    "anim_store s' = anim_store s" "objects s' = objects s" "paused s' = paused s"
  shows "render_calls su s' = render_calls su s"
proof -
  have "draw_object s' = draw_object s"
    by (rule ext) (simp add: draw_object_def assms cong: option.case_cong)
  moreover have "is_grid_anim s' = is_grid_anim s"
    by (rule ext) (simp add: is_grid_anim_def assms)
  ultimately show ?thesis by (simp add: render_calls_def assms)
qed

lemma render_calls_irrelevant [simp]:
  "render_calls su (s\<lparr>trace := tr\<rparr>) = render_calls su s"
  "render_calls su (s\<lparr>framebuffer := fb\<rparr>) = render_calls su s"
  "render_calls su (s\<lparr>frames := fr\<rparr>) = render_calls su s"
  by (rule render_calls_cong; simp)+

lemma setup_call_irrelevant [simp]:
  "setup_call (s\<lparr>trace := tr\<rparr>) = setup_call s"
  "setup_call (s\<lparr>framebuffer := fb\<rparr>) = setup_call s"
  "setup_call (s\<lparr>frames := fr\<rparr>) = setup_call s"
  by (simp_all add: setup_call_def)

lemma render_eq_setup:
  "render s =
     s\<lparr>framebuffer := render_calls (setup_call s) s,
       trace := trace s @ map Render (render_calls (setup_call s) s)\<rparr>"
  by (simp add: render_eq setup_call_def)

lemma still_step_eq:
  "still_step s =
     s\<lparr>trace := trace s @ EventPump # map Render (render_calls (setup_call s) s),
       framebuffer := render_calls (setup_call s) s,
       frames := (if recording s then frames s @ [still_image s] else frames s)\<rparr>"
  by (simp add: still_step_def capture_frame_def render_eq_setup call_def still_image_def)

lemma still_step_same_picture:
  "still_image (still_step s) = still_image s"
  by (simp add: still_image_def still_step_eq)

lemma still_steps_fields:
  "animations ((still_step ^^ n) s) = animations s"
  "anim_store ((still_step ^^ n) s) = anim_store s"
  "timeline ((still_step ^^ n) s) = timeline s"
  "recording ((still_step ^^ n) s) = recording s"
  "still_image ((still_step ^^ n) s) = still_image s"
  by (induction n) (simp_all add: still_step_same_picture, simp_all add: still_step_eq)

lemma still_steps_frames:
  "recording s \<Longrightarrow> frames ((still_step ^^ n) s) = frames s @ replicate n (still_image s)"
proof (induction n)
  case 0
  show ?case by simp
next
  case (Suc n)
  have "frames ((still_step ^^ Suc n) s)
      = frames ((still_step ^^ n) s) @ [still_image ((still_step ^^ n) s)]"
    using Suc.prems by (simp add: still_step_eq still_steps_fields)
  also have "\<dots> = frames s @ replicate (Suc n) (still_image s)"
    using Suc by (simp add: still_steps_fields replicate_append_same)
  finally show ?case .
qed


lemma py_int_nonneg: "0 < fps \<Longrightarrow> 0 \<le> py_int (fl (1000 / of_int fps))"
  using gif_duration [of fps] by (simp add: pos_imp_zdiv_nonneg_iff)

lemma finish_recording_eq:
  "0 < fps \<Longrightarrow>
     finish_recording filename fps s =
       Inr (s\<lparr>trace := trace s
                @ (if frames s = [] then []
                   else [ImageSave filename (frames s) (py_int (fl (1000 / of_int fps))) 0,
                         Print filename (length (frames s))])
                @ [PygameQuit],
              recording := False\<rparr>)"
  using py_int_nonneg [of fps] by (simp add: finish_recording_def save_gif_def call_def Let_def)

lemma start_recording_fields:
  "recording (start_recording s)" "frames (start_recording s) = []"
  "paused (start_recording s) = paused s"
  "animations (start_recording s) = animations s"
  "anim_store (start_recording s) = anim_store s"
  "timeline (start_recording s) = \<lparr>current_time = current_time (timeline s), mode = Playing\<rparr>"
  by (simp_all add: start_recording_def tl_play_def init_pygame_def Timeline_play_def)

lemma capture_step_unpaused:
  assumes "\<not> paused x" "distinct (animations x)"
  shows "timeline (capture_step dt x) = Timeline_update dt (timeline x)"
    and "anim_store (capture_step dt x) a
          = (if a \<in> set (animations x) then animation_update dt (anim_store x a)
             else anim_store x a)"
    and "animations (capture_step dt x)
          = filter (\<lambda>a. \<not> is_finished (anim_store (capture_step dt x) a)) (animations x)"
    and "distinct (animations (capture_step dt x))"
    and "\<not> paused (capture_step dt x)"
    and "mode (timeline (capture_step dt x)) = mode (timeline x)"
proof -
  let ?y = "call EventPump x"
  have y: "\<not> paused ?y" "distinct (animations ?y)" "animations ?y = animations x"
    "anim_store ?y = anim_store x" "timeline ?y = timeline x"
    using assms by (simp_all add: call_def)
  have c: "animations (capture_step dt x) = animations (update dt ?y)"
    "anim_store (capture_step dt x) = anim_store (update dt ?y)"
    "timeline (capture_step dt x) = timeline (update dt ?y)"
    "paused (capture_step dt x) = paused (update dt ?y)"
    by (simp_all add: capture_step_def capture_frame_def render_eq)
  show "timeline (capture_step dt x) = Timeline_update dt (timeline x)"
    using y by (simp add: c update_eq step_eq)
  show st: "anim_store (capture_step dt x) a
          = (if a \<in> set (animations x) then animation_update dt (anim_store x a)
             else anim_store x a)"
    using y by (simp add: c update_eq step_eq update_store_apply)
  show an: "animations (capture_step dt x)
          = filter (\<lambda>a. \<not> is_finished (anim_store (capture_step dt x) a)) (animations x)"
    using update_animations_distinct [OF y(1) y(2), where dt = dt] by (simp add: c y)
  show "distinct (animations (capture_step dt x))"
    using assms(2) by (subst an) simp
  show "\<not> paused (capture_step dt x)"
    using y by (simp add: c update_eq step_eq)
  show "mode (timeline (capture_step dt x)) = mode (timeline x)"
    using y by (simp add: c update_eq step_eq Timeline_update_def)
qed

lemma capture_steps_unpaused:
  assumes "\<not> paused s" "distinct (animations s)"
  shows "\<not> paused ((capture_step dt ^^ j) s) \<and> distinct (animations ((capture_step dt ^^ j) s))
    \<and> mode (timeline ((capture_step dt ^^ j) s)) = mode (timeline s)"
proof (induction j)
  case 0
  from assms show ?case by simp
next
  case (Suc j)
  let ?x = "(capture_step dt ^^ j) s"
  from Suc have x: "\<not> paused ?x" "distinct (animations ?x)"
    "mode (timeline ?x) = mode (timeline s)" by simp_all
  from capture_step_unpaused(4-6) [OF x(1) x(2), where dt = dt] x(3)
  show ?case by simp
qed

lemma capture_step_paused: "paused x \<Longrightarrow> capture_step dt x = still_step x"
  by (simp add: capture_step_def still_step_def update_def call_def)

lemma still_steps_paused: "paused ((still_step ^^ n) s) = paused s"
  by (induction n) (simp_all add: still_step_eq)

lemma capture_steps_paused:
  "paused s \<Longrightarrow> (capture_step dt ^^ n) s = (still_step ^^ n) s"
  by (induction n) (simp_all add: capture_step_paused still_steps_paused)

lemma record_play_loop_paused:
  assumes "paused s" "animations s \<noteq> []" "record_play_loop dt 0 s = (n, s2)"
  shows "n = 300" "s2 = (still_step ^^ 300) s"
proof -
  from record_play_loop_result [OF assms(3)]
  have n: "n \<le> 300" and s2: "s2 = (capture_step dt ^^ n) s"
    and stop: "animations s2 = [] \<or> 300 \<le> n" by auto
  have "animations s2 = animations s"
    using assms(1) by (simp add: s2 capture_steps_paused still_steps_fields)
  with stop assms(2) n show "n = 300" by simp
  with s2 assms(1) show "s2 = (still_step ^^ 300) s" by (simp add: capture_steps_paused)
qed

lemma record_play_paused:
  assumes "paused s" "animations s \<noteq> []" "0 < fps"
  shows "\<not> isl (record_play filename fps s)"
    and "length (frames (projr (record_play filename fps s))) = 300 + nat fps"
    and "anim_store (projr (record_play filename fps s)) = anim_store s"
    and "animations (projr (record_play filename fps s)) = animations s"
    and "current_time (timeline (projr (record_play filename fps s)))
          = current_time (timeline s)"
proof -
  let ?dt = "frame_time fps"
  let ?s1 = "start_recording s"
  obtain n s2 where loop: "record_play_loop ?dt 0 ?s1 = (n, s2)"
    by (cases "record_play_loop ?dt 0 ?s1")
  have p1: "paused ?s1" "animations ?s1 \<noteq> []"
    using assms by (simp_all add: start_recording_fields)
  from record_play_loop_paused [OF p1 loop]
  have s2: "s2 = (still_step ^^ 300) ?s1" by simp
  let ?s3 = "(still_step ^^ nat fps) s2"
  have res: "record_play filename fps s = finish_recording filename fps ?s3"
    using assms(3) loop by (simp add: record_play_def Let_def)
  have s3: "?s3 = (still_step ^^ (nat fps + 300)) ?s1"
    by (simp add: s2 funpow_add)
  show "\<not> isl (record_play filename fps s)"
    using assms(3) by (simp add: res finish_recording_eq)
  show "length (frames (projr (record_play filename fps s))) = 300 + nat fps"
    using assms(3)
    by (simp add: res finish_recording_eq s3 still_steps_frames start_recording_fields
        del: funpow.simps)
  show "anim_store (projr (record_play filename fps s)) = anim_store s"
    using assms(3)
    by (simp add: res finish_recording_eq s3 still_steps_fields start_recording_fields
        del: funpow.simps)
  show "animations (projr (record_play filename fps s)) = animations s"
    using assms(3)
    by (simp add: res finish_recording_eq s3 still_steps_fields start_recording_fields
        del: funpow.simps)
  show "current_time (timeline (projr (record_play filename fps s)))
          = current_time (timeline s)"
    using assms(3)
    by (simp add: res finish_recording_eq s3 still_steps_fields start_recording_fields
        del: funpow.simps)
qed

text \<open>
  Claim C2, as amended. For every Scene and every fps > 0, \<open>record_play\<close> returns (no
  error; the loop function is total). Its loop runs some n \<le> 300 iterations, each one
  the update with the fixed delta \<open>1.0 / fps\<close>, then render, then capture; the active
  list is non-empty before each of them, and afterwards it is empty or n = 300. When the Scene
  is not paused and its active list has no duplicates, every iteration advances the
  playing Timeline and every active animation by that delta (progress clamped at the
  duration), leaves the other animations alone, and drops from the active list those
  that are finished after it. When the Scene is paused the update does nothing: no
  animation and no clock advances, and with a non-empty active list the loop runs to the
  cap of 300. After the loop exactly fps further frames are appended, all of them the
  picture of the final state, while active list, animations and Timeline stay as the
  loop left them. So n + fps frames are captured, at most 300 + fps.
\<close>

theorem record_play_terminates:
  assumes "0 < fps"
  shows "\<exists>n s2 s'.
      record_play_loop (frame_time fps) 0 (start_recording s) = (n, s2)
    \<and> n \<le> 300
    \<and> s2 = (capture_step (frame_time fps) ^^ n) (start_recording s)
    \<and> (\<forall>j<n. animations ((capture_step (frame_time fps) ^^ j) (start_recording s)) \<noteq> [])
    \<and> (animations s2 = [] \<or> n = 300)
    \<and> (\<not> paused s \<and> distinct (animations s) \<longrightarrow>
         (\<forall>j<n.
            mode (timeline ((capture_step (frame_time fps) ^^ j) (start_recording s))) = Playing
          \<and> timeline ((capture_step (frame_time fps) ^^ Suc j) (start_recording s))
              = Timeline_update (frame_time fps)
                  (timeline ((capture_step (frame_time fps) ^^ j) (start_recording s)))
          \<and> (\<forall>a. anim_store ((capture_step (frame_time fps) ^^ Suc j) (start_recording s)) a
                = (if a \<in> set (animations
                                 ((capture_step (frame_time fps) ^^ j) (start_recording s)))
                   then animation_update (frame_time fps)
                          (anim_store
                             ((capture_step (frame_time fps) ^^ j) (start_recording s)) a)
                   else anim_store
                          ((capture_step (frame_time fps) ^^ j) (start_recording s)) a))
          \<and> animations ((capture_step (frame_time fps) ^^ Suc j) (start_recording s))
              = filter
                  (\<lambda>a. \<not> is_finished
                     (anim_store
                        ((capture_step (frame_time fps) ^^ Suc j) (start_recording s)) a))
                  (animations ((capture_step (frame_time fps) ^^ j) (start_recording s)))))
    \<and> (paused s \<longrightarrow>
         anim_store s2 = anim_store s \<and> animations s2 = animations s
         \<and> current_time (timeline s2) = current_time (timeline s)
         \<and> (animations s \<noteq> [] \<longrightarrow> n = 300))
    \<and> record_play filename fps s = Inr s'
    \<and> length (frames s2) = n
    \<and> frames s' = frames s2 @ replicate (nat fps) (still_image s2)
    \<and> length (frames s') = n + nat fps
    \<and> length (frames s') \<le> 300 + nat fps
    \<and> animations s' = animations s2 \<and> anim_store s' = anim_store s2
    \<and> timeline s' = timeline s2"
proof -
  let ?dt = "frame_time fps"
  let ?s1 = "start_recording s"
  let ?X = "\<lambda>j. (capture_step ?dt ^^ j) ?s1"
  obtain n s2 where loop: "record_play_loop ?dt 0 ?s1 = (n, s2)"
    by (cases "record_play_loop ?dt 0 ?s1")
  from record_play_loop_result [OF loop]
  have n: "n \<le> 300" and s2: "s2 = (capture_step ?dt ^^ n) ?s1"
    and stop: "animations s2 = [] \<or> n = 300"
    and run: "\<forall>j<n. animations ((capture_step ?dt ^^ j) ?s1) \<noteq> []"
    by auto
  have rec2: "recording s2" by (simp add: s2 capture_steps_recording start_recording_fields)
  have len2: "length (frames s2) = n"
    by (simp add: s2 capture_steps_length start_recording_fields)
  have adv: "\<not> paused s \<and> distinct (animations s) \<longrightarrow>
         (\<forall>j<n.
            mode (timeline (?X j)) = Playing
          \<and> timeline (?X (Suc j)) = Timeline_update ?dt (timeline (?X j))
          \<and> (\<forall>a. anim_store (?X (Suc j)) a
                = (if a \<in> set (animations (?X j))
                   then animation_update ?dt (anim_store (?X j) a)
                   else anim_store (?X j) a))
          \<and> animations (?X (Suc j))
              = filter (\<lambda>a. \<not> is_finished (anim_store (?X (Suc j)) a))
                  (animations (?X j)))"
  proof (intro impI allI)
    fix j
    assume h: "\<not> paused s \<and> distinct (animations s)"
    then have "\<not> paused ?s1" "distinct (animations ?s1)"
      by (simp_all add: start_recording_fields)
    from capture_steps_unpaused [OF this, where dt = ?dt and j = j]
    have x: "\<not> paused (?X j)" "distinct (animations (?X j))"
      "mode (timeline (?X j)) = Playing"
      by (simp_all add: start_recording_fields)
    have suc: "?X (Suc j) = capture_step ?dt (?X j)" by simp
    from capture_step_unpaused(1-3) [OF x(1) x(2), where dt = ?dt] x(3)
    show "mode (timeline (?X j)) = Playing
          \<and> timeline (?X (Suc j)) = Timeline_update ?dt (timeline (?X j))
          \<and> (\<forall>a. anim_store (?X (Suc j)) a
                = (if a \<in> set (animations (?X j))
                   then animation_update ?dt (anim_store (?X j) a)
                   else anim_store (?X j) a))
          \<and> animations (?X (Suc j))
              = filter (\<lambda>a. \<not> is_finished (anim_store (?X (Suc j)) a))
                  (animations (?X j))"
      unfolding suc by blast
  qed
  have psd: "paused s \<longrightarrow>
         anim_store s2 = anim_store s \<and> animations s2 = animations s
         \<and> current_time (timeline s2) = current_time (timeline s)
         \<and> (animations s \<noteq> [] \<longrightarrow> n = 300)"
  proof
    assume p: "paused s"
    then have p1: "paused ?s1" by (simp add: start_recording_fields)
    then have e: "s2 = (still_step ^^ n) ?s1" by (simp add: s2 capture_steps_paused)
    have "animations s \<noteq> [] \<longrightarrow> n = 300"
      using record_play_loop_paused(1) [OF p1 _ loop] by (simp add: start_recording_fields)
    then show "anim_store s2 = anim_store s \<and> animations s2 = animations s
         \<and> current_time (timeline s2) = current_time (timeline s)
         \<and> (animations s \<noteq> [] \<longrightarrow> n = 300)"
      by (simp add: e still_steps_fields start_recording_fields)
  qed
  let ?s3 = "(still_step ^^ nat fps) s2"
  let ?s' = "?s3\<lparr>trace := trace ?s3
                @ (if frames ?s3 = [] then []
                   else [ImageSave filename (frames ?s3) (py_int (fl (1000 / of_int fps))) 0,
                         Print filename (length (frames ?s3))])
                @ [PygameQuit],
              recording := False\<rparr>"
  have res: "record_play filename fps s = Inr ?s'"
    using assms loop by (simp add: record_play_def Let_def finish_recording_eq)
  have fr: "frames ?s' = frames s2 @ replicate (nat fps) (still_image s2)"
    using rec2 by (simp add: still_steps_frames)
  have same: "animations ?s' = animations s2" "anim_store ?s' = anim_store s2"
    "timeline ?s' = timeline s2"
    by (simp_all add: still_steps_fields)
  have len: "length (frames ?s') = n + nat fps" using fr len2 by simp
  have bound: "length (frames ?s') \<le> 300 + nat fps" using len n by simp
  show ?thesis
    apply (rule exI [of _ n], rule exI [of _ s2], rule exI [of _ ?s'])
    apply (intro conjI)
    using loop n s2 run stop adv psd res len2 fr len bound same by blast+
qed

lemma stepped_scene_paused:
  "paused stepped_scene" "animations stepped_scene = [0, 1, 3]"
  "\<not> is_finished (anim_store stepped_scene 1)"
  by (simp_all add: stepped_scene_def step_eq demo_scene_def demo_store_def idle_def
      Scene_init_def construct_def valid_viewport_def add_animation_def animation_update_def
      is_finished_def)

text \<open>
  Claim C2 as stated fails for a paused Scene: \<open>_update\<close> returns at once, so the
  loop does not advance the state; with an unfinished animation active it runs its 300
  iterations and leaves every animation and the clock where they were.
\<close>

theorem record_play_paused_counterexample:
  "paused stepped_scene \<and> animations stepped_scene = [0, 1, 3]
   \<and> \<not> is_finished (anim_store stepped_scene 1)
   \<and> \<not> isl (record_play ''out.gif'' 1 stepped_scene)
   \<and> length (frames (projr (record_play ''out.gif'' 1 stepped_scene))) = 301
   \<and> anim_store (projr (record_play ''out.gif'' 1 stepped_scene)) = anim_store stepped_scene
   \<and> animations (projr (record_play ''out.gif'' 1 stepped_scene)) = [0, 1, 3]
   \<and> current_time (timeline (projr (record_play ''out.gif'' 1 stepped_scene)))
       = current_time (timeline stepped_scene)"
proof -
  have ne: "animations stepped_scene \<noteq> []" by (simp add: stepped_scene_paused)
  have fps: "(0::int) < 1" by simp
  from record_play_paused [OF stepped_scene_paused(1) ne fps, of "''out.gif''"]
    stepped_scene_paused
  show ?thesis by simp
qed

lemma frame_time_1: "frame_time 1 = 1"
  by (simp add: frame_time_def)

lemma demo_loop_count: "fst (record_play_loop 1 0 (start_recording demo_scene)) = 2"
  by (simp add: record_play_loop.simps capture_step_def capture_frame_def render_eq_setup
      update_eq step_eq call_def start_recording_def tl_play_def tl_update_def init_pygame_def
      anim_update_def animation_update_def is_finished_def Let_def
      demo_scene_def demo_store_def idle_def Scene_init_def construct_def valid_viewport_def add_animation_def)

lemma demo_loop_store:
  "elapsed (anim_store (snd (record_play_loop 1 0 (start_recording demo_scene))) 1) = 2"
  by (simp add: record_play_loop.simps capture_step_def capture_frame_def render_eq_setup
      update_eq step_eq call_def start_recording_def tl_play_def tl_update_def init_pygame_def
      anim_update_def animation_update_def is_finished_def Let_def
      demo_scene_def demo_store_def idle_def Scene_init_def construct_def valid_viewport_def
      add_animation_def)

theorem record_play_terminates_witness:
  "(0::int) < 1 \<and> \<not> paused demo_scene \<and> distinct (animations demo_scene)
   \<and> \<not> isl (record_play ''out.gif'' 1 demo_scene)
   \<and> length (frames (projr (record_play ''out.gif'' 1 demo_scene))) = 3
   \<and> animations (projr (record_play ''out.gif'' 1 demo_scene)) = []
   \<and> elapsed (anim_store demo_scene 1) = 0
   \<and> elapsed (anim_store (projr (record_play ''out.gif'' 1 demo_scene)) 1) = 2"
proof -
  have d: "\<not> paused demo_scene" "distinct (animations demo_scene)"
    "elapsed (anim_store demo_scene 1) = 0"
    by (simp_all add: demo_scene_def demo_store_def idle_def Scene_init_def construct_def
        valid_viewport_def add_animation_def)
  from record_play_terminates [of 1 demo_scene "''out.gif''"]
  obtain n s2 s' where
    loop: "record_play_loop (frame_time 1) 0 (start_recording demo_scene) = (n, s2)"
    and stop: "animations s2 = [] \<or> n = 300"
    and res: "record_play ''out.gif'' 1 demo_scene = Inr s'"
    and len: "length (frames s') = n + nat 1"
    and an: "animations s' = animations s2"
    and st: "anim_store s' = anim_store s2"
    by auto
  from loop demo_loop_count have "n = 2" by (simp add: frame_time_1)
  moreover from loop demo_loop_store have "elapsed (anim_store s2 1) = 2"
    by (simp add: frame_time_1)
  ultimately show ?thesis using stop res len an st d by simp
qed

section \<open>Construction errors\<close>

text \<open>
  Claim C7. Constructing a Scene fails iff the configuration is invalid: a
  dimensionality that is neither 2 nor 3 raises \<open>ValueError\<close> (checked first, by
  \<open>Scene.__init__\<close> itself), and for a valid dimensionality a viewport whose width or
  height is not positive raises the configuration error of the camera and renderer
  constructors. Otherwise the Scene is built, with the dimensionality, width, height and
  title it was given, no entities, no animations, no frames, and not paused. The error is
  the result of that one call; there is no other effect.
\<close>

theorem Scene_init_errors:
  "(isl (Scene_init store back this d w h t) \<longleftrightarrow> (d \<noteq> 2 \<and> d \<noteq> 3) \<or> w \<le> 0 \<or> h \<le> 0)
   \<and> (d \<noteq> 2 \<and> d \<noteq> 3 \<longrightarrow> Scene_init store back this d w h t = Inl ValueError)
   \<and> ((d = 2 \<or> d = 3) \<and> (w \<le> 0 \<or> h \<le> 0) \<longrightarrow>
        Scene_init store back this d w h t = Inl ConfigurationError)
   \<and> ((d = 2 \<or> d = 3) \<and> 0 < w \<and> 0 < h \<longrightarrow>
        (\<exists>s. Scene_init store back this d w h t = Inr s \<and> dim s = d \<and> width s = w
           \<and> height s = h \<and> title s = t \<and> objects s = [] \<and> animations s = []
           \<and> original_animations s = [] \<and> \<not> paused s \<and> frames s = []))"
  by (auto simp: Scene_init_def construct_def valid_viewport_def)

theorem Scene_init_errors_witness:
  "Scene_init demo_store detached 0 5 800 600 ''linalg-viz'' = Inl ValueError
   \<and> Scene_init demo_store detached 0 2 0 (- 600) ''linalg-viz'' = Inl ConfigurationError
   \<and> Scene_init demo_store detached 0 3 800 0 ''linalg-viz'' = Inl ConfigurationError
   \<and> \<not> isl (Scene_init demo_store detached 0 3 800 600 ''linalg-viz'')
   \<and> \<not> isl (Scene_init demo_store detached 0 2 800 600 ''linalg-viz'')"
  using Scene_init_errors [of demo_store detached 0 5 800 600 "''linalg-viz''"]
        Scene_init_errors [of demo_store detached 0 2 0 "- 600" "''linalg-viz''"]
        Scene_init_errors [of demo_store detached 0 3 800 0 "''linalg-viz''"]
        Scene_init_errors [of demo_store detached 0 3 800 600 "''linalg-viz''"]
        Scene_init_errors [of demo_store detached 0 2 800 600 "''linalg-viz''"]
  by simp

section \<open>Export\<close>

lemma py_int_pos: "0 < fps \<Longrightarrow> py_int (fl (1000 / of_int fps)) = 1000 div fps"
  by (rule gif_duration)

lemma py_int_exact:
  "fps dvd 1000 \<Longrightarrow> 0 < fps \<Longrightarrow> real_of_int (py_int (fl (1000 / of_int fps))) = 1000 / of_int fps"
proof -
  assume "fps dvd 1000" "0 < fps"
  then obtain q where q: "1000 = fps * q" by (auto simp: dvd_def)
  then have "1000 / real_of_int fps = of_int q"
    using \<open>0 < fps\<close> by (metis less_irrefl nonzero_mult_div_cancel_left of_int_0_eq_iff of_int_mult of_int_numeral)
  moreover have "1000 div fps = q"
    using q \<open>0 < fps\<close> by (metis less_irrefl nonzero_mult_div_cancel_left)
  ultimately show ?thesis using gif_duration [of fps] \<open>0 < fps\<close> by simp
qed

text \<open>
  Claim C8, as amended. With an empty frame buffer \<open>_save_gif\<close> returns without a
  write, without an error and with the Scene unchanged. With at least one frame and
  fps > 0 it writes all frames, looping, at \<open>int(1000 / fps)\<close> milliseconds per frame,
  and prints path and frame count; the Scene, its frame buffer included, is otherwise
  unchanged. \<open>int(1000 / fps)\<close> is 1000 / fps truncated to a whole number: the integer
  quotient for fps > 0, and exactly 1000 / fps when fps divides 1000.
\<close>

theorem save_gif_behaviour:
  "(frames s = [] \<longrightarrow> save_gif filename fps s = Inr s)
   \<and> (frames s \<noteq> [] \<and> 0 < fps \<longrightarrow>
        save_gif filename fps s
          = Inr (s\<lparr>trace := trace s
                   @ [ImageSave filename (frames s) (py_int (fl (1000 / of_int fps))) 0,
                      Print filename (length (frames s))]\<rparr>))
   \<and> (0 < fps \<longrightarrow> py_int (fl (1000 / of_int fps)) = 1000 div fps)
   \<and> (fps dvd 1000 \<and> 0 < fps \<longrightarrow>
        real_of_int (py_int (fl (1000 / of_int fps))) = 1000 / of_int fps)"
proof (cases "0 < fps")
  case True
  with py_int_pos [of fps] py_int_exact [of fps] py_int_nonneg [of fps] show ?thesis
    by (simp add: save_gif_def Let_def)
next
  case False
  then show ?thesis by (simp add: save_gif_def)
qed

theorem save_gif_behaviour_witness:
  "save_gif ''out.gif'' 10 (fresh_scene 2) = Inr (fresh_scene 2)
   \<and> frames captured_scene \<noteq> []
   \<and> save_gif ''out.gif'' 10 captured_scene
       = Inr (captured_scene\<lparr>trace := trace captured_scene
                @ [ImageSave ''out.gif'' (frames captured_scene) 100 0,
                   Print ''out.gif'' 1]\<rparr>)"
proof -
  have a: "frames (fresh_scene 2) = []" "frames captured_scene \<noteq> []"
    "length (frames captured_scene) = 1"
    by (simp_all add: fresh_scene_def Scene_init_def construct_def valid_viewport_def captured_scene_def capture_frame_def
        render_eq)
  have b: "py_int (fl (1000 / of_int 10)) = 100" "(0::int) < 10"
    using save_gif_behaviour [of captured_scene "''out.gif''" 10] by simp_all
  from a b save_gif_behaviour [of "fresh_scene 2" "''out.gif''" 10]
    save_gif_behaviour [of captured_scene "''out.gif''" 10]
  show ?thesis by simp
qed

text \<open>
  Claim C8 as stated fails on the frame duration: at 30 fps the artifact is written at
  33 ms per frame, which is not 1000 / 30.
\<close>

theorem save_gif_truncates_counterexample:
  "frames captured_scene \<noteq> []
   \<and> save_gif ''out.gif'' 30 captured_scene
       = Inr (captured_scene\<lparr>trace := trace captured_scene
                @ [ImageSave ''out.gif'' (frames captured_scene) 33 0,
                   Print ''out.gif'' 1]\<rparr>)
   \<and> real_of_int 33 \<noteq> 1000 / 30"
proof -
  have a: "frames captured_scene \<noteq> []" "length (frames captured_scene) = 1"
    by (simp_all add: fresh_scene_def Scene_init_def construct_def valid_viewport_def captured_scene_def capture_frame_def
        render_eq)
  have b: "py_int (fl (1000 / of_int 30)) = 33"
    using py_int_pos [of 30] by simp
  from a b show ?thesis by (simp add: save_gif_def Let_def)
qed

section \<open>The frame buffer after a capture session\<close>

lemma scene_record_eq:
  "0 < fps \<Longrightarrow>
     scene_record filename dur fps s =
       finish_recording filename fps
         ((capture_step (frame_time fps) ^^ nat (py_int (fl (dur * of_int fps)))) (start_recording s))"
  by (simp add: scene_record_def Let_def)

lemma finish_recording_frames:
  assumes "0 < fps"
  shows "\<not> isl (finish_recording filename fps s)"
    "frames (projr (finish_recording filename fps s)) = frames s"
    "recording (projr (finish_recording filename fps s)) = False"
    "frames s \<noteq> [] \<Longrightarrow>
       ImageSave filename (frames s) (py_int (fl (1000 / of_int fps))) 0
         \<in> set (trace (projr (finish_recording filename fps s)))"
  using assms by (simp_all add: finish_recording_eq)

text \<open>
  Claim C9, as amended. For fps > 0, \<open>record\<close> and \<open>record_play\<close> return with the
  frame buffer still holding every captured frame (\<open>int(duration * fps)\<close> of them for
  \<open>record\<close>, the loop's count plus fps for \<open>record_play\<close>): when it is not empty it is
  the very list that was written to the artifact. The buffer is emptied only when the
  next capture session starts.
\<close>

theorem record_retains_frames:
  assumes "0 < fps"
  shows "\<exists>s' s''.
      scene_record filename dur fps s = Inr s'
    \<and> length (frames s') = nat (py_int (fl (dur * of_int fps)))
    \<and> (frames s' \<noteq> [] \<longrightarrow>
         ImageSave filename (frames s') (py_int (fl (1000 / of_int fps))) 0 \<in> set (trace s'))
    \<and> record_play filename fps s = Inr s''
    \<and> length (frames s'')
         = fst (record_play_loop (frame_time fps) 0 (start_recording s)) + nat fps
    \<and> (frames s'' \<noteq> [] \<longrightarrow>
         ImageSave filename (frames s'') (py_int (fl (1000 / of_int fps))) 0 \<in> set (trace s''))
    \<and> frames (start_recording s') = [] \<and> frames (start_recording s'') = []"
proof -
  let ?dt = "frame_time fps"
  let ?a = "(capture_step ?dt ^^ nat (py_int (fl (dur * of_int fps)))) (start_recording s)"
  let ?s' = "projr (finish_recording filename fps ?a)"
  obtain n s2 where loop: "record_play_loop ?dt 0 (start_recording s) = (n, s2)"
    by (cases "record_play_loop ?dt 0 (start_recording s)")
  let ?b = "(still_step ^^ nat fps) s2"
  let ?s'' = "projr (finish_recording filename fps ?b)"
  have s2: "s2 = (capture_step ?dt ^^ n) (start_recording s)"
    using record_play_loop_result [OF loop] by simp
  have rec2: "recording s2" and len2: "length (frames s2) = n"
    by (simp_all add: s2 capture_steps_recording capture_steps_length start_recording_fields)
  have 1: "scene_record filename dur fps s = Inr ?s'"
    using assms finish_recording_frames(1) [OF assms, of filename ?a]
    by (simp add: scene_record_eq)
  have 2: "length (frames ?s') = nat (py_int (fl (dur * of_int fps)))"
    using assms
    by (simp add: finish_recording_frames capture_steps_length start_recording_fields)
  have 3: "frames ?s' \<noteq> [] \<longrightarrow>
         ImageSave filename (frames ?s') (py_int (fl (1000 / of_int fps))) 0 \<in> set (trace ?s')"
    using finish_recording_frames(4) [OF assms, of ?a filename]
    by (simp add: finish_recording_frames(2) [OF assms])
  have 4: "record_play filename fps s = Inr ?s''"
    using assms loop finish_recording_frames(1) [OF assms, of filename ?b]
    by (simp add: record_play_def Let_def)
  have 5: "length (frames ?s'') = fst (record_play_loop ?dt 0 (start_recording s)) + nat fps"
    using assms rec2 len2 loop
    by (simp add: finish_recording_frames still_steps_frames)
  have 6: "frames ?s'' \<noteq> [] \<longrightarrow>
         ImageSave filename (frames ?s'') (py_int (fl (1000 / of_int fps))) 0 \<in> set (trace ?s'')"
    using finish_recording_frames(4) [OF assms, of ?b filename]
    by (simp add: finish_recording_frames(2) [OF assms])
  from 1 2 3 4 5 6 show ?thesis
    by (intro exI [of _ ?s'] exI [of _ ?s'']) (simp add: start_recording_fields)
qed

theorem record_retains_frames_witness:
  "(0::int) < 2 \<and> \<not> isl (scene_record ''out.gif'' 1 2 (fresh_scene 2))
   \<and> frames (projr (scene_record ''out.gif'' 1 2 (fresh_scene 2))) \<noteq> []
   \<and> \<not> isl (record_play ''out.gif'' 2 (fresh_scene 2))
   \<and> frames (projr (record_play ''out.gif'' 2 (fresh_scene 2))) \<noteq> []"
proof -
  have p: "py_int (fl (1 * of_int 2)) = 2" by (simp add: py_int_def)
  from record_retains_frames [of 2 "''out.gif''" 1 "fresh_scene 2"]
  obtain s' s'' where
    "scene_record ''out.gif'' 1 2 (fresh_scene 2) = Inr s'"
    "length (frames s') = nat (py_int (fl (1 * of_int 2)))"
    "record_play ''out.gif'' 2 (fresh_scene 2) = Inr s''"
    "length (frames s'')
       = fst (record_play_loop (frame_time 2) 0 (start_recording (fresh_scene 2))) + nat 2"
    by auto
  with p show ?thesis by auto
qed

text \<open>
  Claim C9 as stated fails: after recording one second at 2 fps the Scene still holds
  the two captured frames.
\<close>

theorem record_keeps_frames_counterexample:
  "\<not> isl (scene_record ''out.gif'' 1 2 (fresh_scene 2))
   \<and> length (frames (projr (scene_record ''out.gif'' 1 2 (fresh_scene 2)))) = 2"
proof -
  have p: "py_int (fl (1 * of_int 2)) = 2" by (simp add: py_int_def)
  have "(0::int) < 2" by simp
  then show ?thesis
    using p
    by (simp add: scene_record_eq finish_recording_frames capture_steps_length
        start_recording_fields)
qed

section \<open>Stepping backward\<close>

lemma update_store_notin: "a \<notin> set as \<Longrightarrow> update_store dt as st a = st a"
  by (induction as arbitrary: st) auto

lemma update_store_head:
  "a \<notin> set rest \<Longrightarrow> update_store dt (a # rest) st a = animation_update dt (st a)"
  by (simp add: update_store_notin)

lemma steps_progress:
  assumes "animations s = a # rest" "a \<notin> set rest"
  shows "animations ((step dt ^^ k) s) = animations s
    \<and> original_animations ((step dt ^^ k) s) = original_animations s
    \<and> step_size ((step dt ^^ k) s) = step_size s
    \<and> anim_store ((step dt ^^ k) s) a
        = (anim_store s a)\<lparr>elapsed :=
            ((\<lambda>p. min (fl (p + dt)) (duration (anim_store s a))) ^^ k)
              (elapsed (anim_store s a))\<rparr>"
proof (induction k)
  case 0
  show ?case by simp
next
  case (Suc k)
  let ?f = "\<lambda>p. min (fl (p + dt)) (duration (anim_store s a))"
  from Suc.IH have ih: "animations ((step dt ^^ k) s) = a # rest"
    "original_animations ((step dt ^^ k) s) = original_animations s"
    "step_size ((step dt ^^ k) s) = step_size s"
    "anim_store ((step dt ^^ k) s) a
        = (anim_store s a)\<lparr>elapsed := (?f ^^ k) (elapsed (anim_store s a))\<rparr>"
    using assms(1) by simp_all
  let ?x = "(step dt ^^ k) s"
  have f: "animations (step dt ?x) = animations ?x"
    "original_animations (step dt ?x) = original_animations ?x"
    "step_size (step dt ?x) = step_size ?x"
    by (simp_all add: step_eq)
  have "anim_store (step dt ?x) a = animation_update dt (anim_store ?x a)"
    using assms(2) by (simp add: step_eq ih(1) update_store_notin)
  also have "\<dots> = (anim_store s a)\<lparr>elapsed := (?f ^^ Suc k) (elapsed (anim_store s a))\<rparr>"
    by (simp add: ih(4) animation_update_def)
  finally have "anim_store (step dt ?x) a
      = (anim_store s a)\<lparr>elapsed := (?f ^^ Suc k) (elapsed (anim_store s a))\<rparr>" .
  with f ih assms(1) show ?case by simp
qed

lemma step_backward_progress:
  assumes "animations s = a # rest" "a \<notin> set rest"
  shows "get_total_progress (step_backward s)
    = (if 0 < fl (elapsed (anim_store s a) - step_size s)
       then min (fl (elapsed (anim_store s a) - step_size s)) (duration (anim_store s a))
       else 0)"
proof -
  let ?m = "missing (a # rest) (original_animations s)"
  have notin: "a \<notin> set (rest @ ?m)" using assms(2) by (simp add: set_missing)
  show ?thesis
    using notin
    by (simp add: step_backward_def Let_def get_total_progress_def assms(1) reset_each_eq
        restore_each_eq tl_stop_def step_eq update_store_notin reset_store_apply
        animation_reset_def animation_update_def max_def)
qed

lemma steps_then_back:
  assumes "animations s = a # rest" "a \<notin> set rest"
  shows "get_total_progress ((step (step_size s) ^^ k) s)
      = ((\<lambda>p. min (fl (p + step_size s)) (duration (anim_store s a))) ^^ k)
          (elapsed (anim_store s a))"
    and "get_total_progress (step_backward ((step (step_size s) ^^ k) s))
      = (let p = ((\<lambda>p. min (fl (p + step_size s)) (duration (anim_store s a))) ^^ k)
                   (elapsed (anim_store s a))
         in if 0 < fl (p - step_size s)
            then min (fl (p - step_size s)) (duration (anim_store s a)) else 0)"
proof -
  let ?st = "step_size s"
  let ?t = "(step ?st ^^ k) s"
  let ?p = "((\<lambda>p. min (fl (p + ?st)) (duration (anim_store s a))) ^^ k)
              (elapsed (anim_store s a))"
  from steps_progress [OF assms, where dt = ?st and k = k]
  have t: "animations ?t = a # rest" "step_size ?t = ?st"
    "anim_store ?t a = (anim_store s a)\<lparr>elapsed := ?p\<rparr>"
    using assms(1) by simp_all
  show "get_total_progress ?t = ?p"
    by (simp add: get_total_progress_def t)
  from step_backward_progress [of ?t a rest] t assms(2)
  show "get_total_progress (step_backward ?t)
      = (let p = ?p in if 0 < fl (p - ?st)
            then min (fl (p - ?st)) (duration (anim_store s a)) else 0)"
    by (simp add: Let_def)
qed

lemma step_backward_zero:
  assumes "get_total_progress s \<le> step_size s"
  shows "get_total_progress (step_backward s) = 0"
proof -
  let ?m = "missing (animations s) (original_animations s)"
  have "fl (get_total_progress s - step_size s) \<le> 0"
    using assms by (intro fl_nonpos) simp
  then have target: "max 0 (fl (get_total_progress s - step_size s)) = 0" by simp
  have anims: "animations (step_backward s) = animations s @ ?m"
    and store: "anim_store (step_backward s)
        = reset_store ?m (reset_store (animations s) (anim_store s))"
    and tl: "timeline (step_backward s) = Timeline_stop (timeline s)"
    by (simp_all add: step_backward_def Let_def target reset_each_eq restore_each_eq
        tl_stop_def)
  show ?thesis
  proof (cases "animations s @ ?m")
    case Nil
    with anims have "animations (step_backward s) = []" by simp
    then show ?thesis
      by (simp add: get_total_progress_def [of "step_backward s"] tl Timeline_stop_def)
  next
    case (Cons a as)
    then have "a \<in> set (animations s) \<or> a \<in> set ?m"
      by (metis Un_iff list.set_intros(1) set_append)
    then have "elapsed (reset_store ?m (reset_store (animations s) (anim_store s)) a) = 0"
      by (auto simp: reset_store_apply animation_reset_def)
    moreover from anims Cons have "animations (step_backward s) = a # as" by simp
    ultimately show ?thesis
      by (simp add: get_total_progress_def [of "step_backward s"] store)
  qed
qed

lemma steps_then_back_exact:
  assumes "animations s = a # rest" "a \<notin> set rest" "elapsed (anim_store s a) = 0"
    "0 < step_size s" "fl (step_size s) = step_size s" "k = 1 \<or> k = 2"
    "of_nat k * step_size s \<le> duration (anim_store s a)"
  shows "get_total_progress (step_backward ((step (step_size s) ^^ k) s))
    = of_nat (k - 1) * step_size s"
proof -
  let ?st = "step_size s"
  let ?d = "duration (anim_store s a)"
  have le: "?st \<le> ?d" using assms(4,6,7) by auto
  have dbl: "fl (?st + ?st) = ?st + ?st" using fl_double [of ?st] assms(5) by simp
  from assms(6) show ?thesis
  proof
    assume "k = 1"
    with le assms(3,5) steps_then_back(2) [OF assms(1,2), of k] show ?thesis
      by (simp add: Let_def)
  next
    assume k: "k = 2"
    with assms(7) have le2: "?st + ?st \<le> ?d" by simp
    have sub: "fl (?st + ?st - ?st) = ?st" using assms(5) by simp
    from k le le2 dbl sub assms(3,4,5) steps_then_back(2) [OF assms(1,2), of k]
    show ?thesis by (simp add: Let_def numeral_2_eq_2)
  qed
qed

text \<open>
  Claim C4, as amended. Times are floats, so every sum and difference below is rounded
  to the nearest double. Let the first active animation be listed once in the active
  list, with progress e and duration d, and let st be the step size. Then k forward
  steps bring the aggregate progress to p, where p is obtained from e by k times adding
  st and capping at d; and one \<open>stepBackward\<close> after them leaves the aggregate progress
  at 0 when the difference p - st is not positive, and otherwise at that difference,
  capped at d: one step below the progress reached, which need not be (k - 1) times the
  step size. It is exactly (k - 1) times the step size when the animation starts idle,
  the step size is a positive double, k is 1 or 2 and k times the step size does not
  exceed d. And for every Scene, stepping backward when the aggregate progress is at or
  below one step size leaves it at 0.
\<close>

theorem step_backward_left_inverse:
  "(animations s = a # rest \<and> a \<notin> set rest \<longrightarrow>
      (let st = step_size s; d = duration (anim_store s a);
           p = ((\<lambda>p. min (fl (p + st)) d) ^^ k) (elapsed (anim_store s a))
       in get_total_progress ((step st ^^ k) s) = p
        \<and> get_total_progress (step_backward ((step st ^^ k) s))
            = (if 0 < fl (p - st) then min (fl (p - st)) d else 0)))
   \<and> (animations s = a # rest \<and> a \<notin> set rest \<and> elapsed (anim_store s a) = 0
        \<and> 0 < step_size s \<and> fl (step_size s) = step_size s \<and> (k = 1 \<or> k = 2)
        \<and> of_nat k * step_size s \<le> duration (anim_store s a)
      \<longrightarrow> get_total_progress (step_backward ((step (step_size s) ^^ k) s))
            = of_nat (k - 1) * step_size s)
   \<and> (get_total_progress s \<le> step_size s \<longrightarrow> get_total_progress (step_backward s) = 0)"
proof (intro conjI impI)
  assume h: "animations s = a # rest \<and> a \<notin> set rest"
  then have a: "animations s = a # rest" "a \<notin> set rest" by simp_all
  from steps_then_back [OF a, of k]
  show "let st = step_size s; d = duration (anim_store s a);
            p = ((\<lambda>p. min (fl (p + st)) d) ^^ k) (elapsed (anim_store s a))
        in get_total_progress ((step st ^^ k) s) = p
         \<and> get_total_progress (step_backward ((step st ^^ k) s))
             = (if 0 < fl (p - st) then min (fl (p - st)) d else 0)"
    by (simp add: Let_def)
next
  assume "animations s = a # rest \<and> a \<notin> set rest \<and> elapsed (anim_store s a) = 0
        \<and> 0 < step_size s \<and> fl (step_size s) = step_size s \<and> (k = 1 \<or> k = 2)
        \<and> of_nat k * step_size s \<le> duration (anim_store s a)"
  then show "get_total_progress (step_backward ((step (step_size s) ^^ k) s))
            = of_nat (k - 1) * step_size s"
    by (intro steps_then_back_exact [of s a rest k]) simp_all
next
  assume "get_total_progress s \<le> step_size s"
  then show "get_total_progress (step_backward s) = 0" by (rule step_backward_zero)
qed

lemma idle_scene_fields:
  "animations idle_scene = [1]"
  "step_size idle_scene = 3602879701896397 / 72057594037927936"
  "elapsed (anim_store idle_scene 1) = 0"
  "duration (anim_store idle_scene 1) = 2"
  by (simp_all add: idle_scene_def add_animation_def Scene_init_def construct_def
      valid_viewport_def demo_store_def idle_def detached_def Let_def)

lemma playing_scene_fields:
  "animations playing_scene = [1]"
  "step_size playing_scene = 3602879701896397 / 72057594037927936"
  "elapsed (anim_store playing_scene 1) = 1 / 2"
  "duration (anim_store playing_scene 1) = 2"
  by (simp_all add: playing_scene_def idle_scene_def update_eq tl_play_def tl_update_def
      add_animation_def Scene_init_def construct_def valid_viewport_def demo_store_def idle_def
      detached_def Let_def step_eq anim_update_def animation_update_def is_finished_def)

lemma two_steps:
  "((\<lambda>p. min (fl (p + 3602879701896397 / 72057594037927936)) 2) ^^ 2) 0
     = 3602879701896397 / 36028797018963968"
proof -
  have p1: "min (fl (0 + 3602879701896397 / 72057594037927936)) 2
      = (3602879701896397 / 72057594037927936 :: real)"
    by simp
  have p2: "min (fl (3602879701896397 / 72057594037927936
                      + 3602879701896397 / 72057594037927936)) 2
      = (3602879701896397 / 36028797018963968 :: real)"
    by (simp only: fl_two_steps)
  show ?thesis
    by (simp only: numeral_2_eq_2 funpow.simps o_apply id_apply p1 p2)
qed

lemma three_steps_and_back:
  "(let p = ((\<lambda>p. min (fl (p + 3602879701896397 / 72057594037927936)) 2) ^^ 3) 0
    in if 0 < fl (p - 3602879701896397 / 72057594037927936)
       then min (fl (p - 3602879701896397 / 72057594037927936)) 2 else 0)
     = 7205759403792795 / 72057594037927936"
proof -
  have p1: "min (fl (0 + 3602879701896397 / 72057594037927936)) 2
      = (3602879701896397 / 72057594037927936 :: real)"
    by simp
  have p2: "min (fl (3602879701896397 / 72057594037927936
                      + 3602879701896397 / 72057594037927936)) 2
      = (3602879701896397 / 36028797018963968 :: real)"
    by (simp only: fl_two_steps)
  have p3: "min (fl (3602879701896397 / 36028797018963968
                      + 3602879701896397 / 72057594037927936)) 2
      = (1351079888211149 / 9007199254740992 :: real)"
    by (simp only: fl_three_steps)
  have f3: "((\<lambda>p. min (fl (p + 3602879701896397 / 72057594037927936)) 2) ^^ 3) 0
      = 1351079888211149 / 9007199254740992"
    by (simp only: numeral_3_eq_3 funpow.simps o_apply id_apply p1 p2 p3)
  show ?thesis by (simp only: Let_def f3 fl_step_back) simp
qed

lemma one_step_and_back:
  "(let p = ((\<lambda>p. min (fl (p + 3602879701896397 / 72057594037927936)) 2) ^^ 1) (1 / 2)
    in if 0 < fl (p - 3602879701896397 / 72057594037927936)
       then min (fl (p - 3602879701896397 / 72057594037927936)) 2 else 0)
     = 1 / 2"
proof -
  have p1: "min (fl (1 / 2 + 3602879701896397 / 72057594037927936)) 2
      = (2476979795053773 / 4503599627370496 :: real)"
    by (simp only: fl_half_step)
  have f1: "((\<lambda>p. min (fl (p + 3602879701896397 / 72057594037927936)) 2) ^^ 1) (1 / 2)
      = 2476979795053773 / 4503599627370496"
    by (simp only: One_nat_def funpow.simps o_apply id_apply p1)
  show ?thesis by (simp only: Let_def f1 fl_half_step_back) simp
qed

text \<open>
  Claim C4 as stated fails in two ways. From idle, three steps of 0.05 forward and one
  step backward leave the aggregate progress at 0.10000000000000002, which is not
  (3 - 1) * 0.05 = 0.1: the double above it. And for a Scene whose first active
  animation is already under way, at progress 1/2, one step forward and one step
  backward give 1/2, not (1 - 1) * 0.05 = 0.
\<close>

theorem step_backward_progress_counterexample:
  "animations idle_scene = [1]
   \<and> (1::nat) \<le> 3
   \<and> of_nat 3 * step_size idle_scene \<le> duration (anim_store idle_scene 1)
   \<and> get_total_progress (step_backward ((step (step_size idle_scene) ^^ 3) idle_scene))
        = 7205759403792795 / 72057594037927936
   \<and> of_nat (3 - 1) * step_size idle_scene = 7205759403792794 / 72057594037927936
   \<and> fl (of_nat (3 - 1) * step_size idle_scene) = 7205759403792794 / 72057594037927936
   \<and> animations playing_scene = [1]
   \<and> (1::nat) \<le> 1
   \<and> of_nat 1 * step_size playing_scene \<le> duration (anim_store playing_scene 1)
   \<and> get_total_progress (step_backward ((step (step_size playing_scene) ^^ 1) playing_scene))
        = 1 / 2
   \<and> of_nat (1 - 1) * step_size playing_scene = 0"
proof -
  have "get_total_progress (step_backward ((step (step_size idle_scene) ^^ 3) idle_scene))
      = (let p = ((\<lambda>p. min (fl (p + step_size idle_scene))
                          (duration (anim_store idle_scene 1))) ^^ 3)
                   (elapsed (anim_store idle_scene 1))
         in if 0 < fl (p - step_size idle_scene)
            then min (fl (p - step_size idle_scene)) (duration (anim_store idle_scene 1))
            else 0)"
    by (rule steps_then_back(2) [of idle_scene 1 "[]" 3]) (simp_all add: idle_scene_fields)
  also have "\<dots> = 7205759403792795 / 72057594037927936"
    by (simp only: idle_scene_fields three_steps_and_back)
  finally have i:
    "get_total_progress (step_backward ((step (step_size idle_scene) ^^ 3) idle_scene))
        = 7205759403792795 / 72057594037927936" .
  have "get_total_progress
          (step_backward ((step (step_size playing_scene) ^^ 1) playing_scene))
      = (let p = ((\<lambda>p. min (fl (p + step_size playing_scene))
                          (duration (anim_store playing_scene 1))) ^^ 1)
                   (elapsed (anim_store playing_scene 1))
         in if 0 < fl (p - step_size playing_scene)
            then min (fl (p - step_size playing_scene)) (duration (anim_store playing_scene 1))
            else 0)"
    by (rule steps_then_back(2) [of playing_scene 1 "[]" 1]) (simp_all add: playing_scene_fields)
  also have "\<dots> = 1 / 2"
    by (simp only: playing_scene_fields one_step_and_back)
  finally have p:
    "get_total_progress (step_backward ((step (step_size playing_scene) ^^ 1) playing_scene))
        = 1 / 2" .
  have d: "fl (of_nat (3 - 1) * step_size idle_scene) = 7205759403792794 / 72057594037927936"
    using fl_two_times_step by (simp add: idle_scene_fields)
  from i p d show ?thesis
    by (simp add: idle_scene_fields [unfolded One_nat_def]
        playing_scene_fields [unfolded One_nat_def])
qed

theorem step_backward_left_inverse_witness:
  "animations idle_scene = [1] \<and> elapsed (anim_store idle_scene 1) = 0
   \<and> 0 < step_size idle_scene \<and> fl (step_size idle_scene) = step_size idle_scene
   \<and> of_nat 2 * step_size idle_scene \<le> duration (anim_store idle_scene 1)
   \<and> get_total_progress ((step (step_size idle_scene) ^^ 2) idle_scene)
        = 3602879701896397 / 36028797018963968
   \<and> get_total_progress (step_backward ((step (step_size idle_scene) ^^ 2) idle_scene))
        = 3602879701896397 / 72057594037927936
   \<and> get_total_progress idle_scene \<le> step_size idle_scene
   \<and> get_total_progress (step_backward idle_scene) = 0"
proof -
  have g: "get_total_progress idle_scene = 0"
    by (simp add: get_total_progress_def idle_scene_fields [unfolded One_nat_def])
  have h: "animations idle_scene = [1] \<and> 1 \<notin> set ([]::nat list)"
    "animations idle_scene = [1] \<and> 1 \<notin> set ([]::nat list)
      \<and> elapsed (anim_store idle_scene 1) = 0
      \<and> 0 < step_size idle_scene \<and> fl (step_size idle_scene) = step_size idle_scene
      \<and> ((2::nat) = 1 \<or> (2::nat) = 2)
      \<and> of_nat 2 * step_size idle_scene \<le> duration (anim_store idle_scene 1)"
    "get_total_progress idle_scene \<le> step_size idle_scene"
    by (simp_all add: idle_scene_fields [unfolded One_nat_def] g)
  from step_backward_left_inverse [of idle_scene 1 "[]" 2] h
  have r: "let st = step_size idle_scene; d = duration (anim_store idle_scene 1);
           p = ((\<lambda>p. min (fl (p + st)) d) ^^ 2) (elapsed (anim_store idle_scene 1))
       in get_total_progress ((step st ^^ 2) idle_scene) = p
        \<and> get_total_progress (step_backward ((step st ^^ 2) idle_scene))
            = (if 0 < fl (p - st) then min (fl (p - st)) d else 0)"
    "get_total_progress (step_backward ((step (step_size idle_scene) ^^ 2) idle_scene))
        = of_nat (2 - 1) * step_size idle_scene"
    "get_total_progress (step_backward idle_scene) = 0"
    by blast+
  have "get_total_progress ((step (step_size idle_scene) ^^ 2) idle_scene)
      = ((\<lambda>p. min (fl (p + step_size idle_scene)) (duration (anim_store idle_scene 1))) ^^ 2)
          (elapsed (anim_store idle_scene 1))"
    using r(1) unfolding Let_def by (rule conjunct1)
  also have "\<dots> = 3602879701896397 / 36028797018963968"
    by (simp only: idle_scene_fields two_steps)
  finally have two: "get_total_progress ((step (step_size idle_scene) ^^ 2) idle_scene)
        = 3602879701896397 / 36028797018963968" .
  from two r(2,3) h g show ?thesis
    by (simp add: idle_scene_fields [unfolded One_nat_def])
qed

end
